theory Spec2Isabelle
  imports Main "HOL-Library.Word" "HOL-Library.AList"
begin

section \<open>Strings\<close>

text \<open>
  A JavaScript string is a sequence of UTF-16 code units. String literals of the
  script are ASCII and are written through \<open>js\<close>, which maps every character to the
  code unit of the same number.
\<close>

type_synonym jschar = "16 word"
type_synonym jsstring = "jschar list"

definition js :: "string \<Rightarrow> jsstring" where
  "js s = map of_char s"

definition slash :: jschar where
  "slash = 0x2F"

definition newline :: jschar where
  "newline = 0x0A"

text \<open>
  \<open>String.prototype.trim\<close> removes white space and line terminators from both ends:
  TAB, LF, VT, FF, CR, SP, NBSP, the Unicode space separators, LS, PS and the BOM.
\<close>

definition is_js_space :: "jschar \<Rightarrow> bool" where
  "is_js_space c \<longleftrightarrow>
     c \<in> {0x09, 0x0A, 0x0B, 0x0C, 0x0D, 0x20, 0xA0, 0x1680,
          0x2000, 0x2001, 0x2002, 0x2003, 0x2004, 0x2005, 0x2006, 0x2007, 0x2008,
          0x2009, 0x200A, 0x2028, 0x2029, 0x202F, 0x205F, 0x3000, 0xFEFF}"

definition trim :: "jsstring \<Rightarrow> jsstring" where
  "trim s = rev (dropWhile is_js_space (rev (dropWhile is_js_space s)))"

text \<open>\<open>s.split(c)\<close> for a one-character separator; the result is never empty.\<close>

fun split_on :: "jschar \<Rightarrow> jsstring \<Rightarrow> jsstring list" where
  "split_on c [] = [[]]"
| "split_on c (x # xs) =
     (if x = c then [] # split_on c xs
      else (case split_on c xs of
              [] \<Rightarrow> [[x]]
            | y # ys \<Rightarrow> (x # y) # ys))"

text \<open>\<open>Array.prototype.pop\<close> on a non-empty array returns its last element.\<close>

definition pop :: "'a list \<Rightarrow> 'a option" where
  "pop xs = (if xs = [] then None else Some (last xs))"

section \<open>Regular expressions\<close>

text \<open>
  The script's three regular expressions are sequences of literal characters, greedy
  repetitions of a one-character class, capture parentheses around such pieces and
  the end assertion \<open>$\<close>. They are matched as ECMAScript matches them: by backtracking,
  a greedy repetition trying its longest run first, and \<open>match\<close>/\<open>replace\<close> on a
  non-global expression taking the leftmost start position that matches.

  A character class is one character, every character but one (\<open>[^\/]\<close>), or the dot,
  which without the \<open>s\<close> flag matches every code unit but the line terminators LF, CR,
  LS and PS.
\<close>

datatype cclass = Only jschar | Except jschar | Dot

fun in_class :: "cclass \<Rightarrow> jschar \<Rightarrow> bool" where
  "in_class (Only a) c = (c = a)"
| "in_class (Except a) c = (c \<noteq> a)"
| "in_class Dot c = (c \<noteq> 0x0A \<and> c \<noteq> 0x0D \<and> c \<noteq> 0x2028 \<and> c \<noteq> 0x2029)"

text \<open>
  \<open>Chr c\<close> is a literal character; \<open>Rep k lo hi\<close> is the class \<open>k\<close> repeated greedily at
  least \<open>lo\<close> and at most \<open>hi\<close> times (\<open>None\<close>: unbounded), so \<open>+\<close> is \<open>Rep k 1 None\<close>,
  \<open>*\<close> is \<open>Rep k 0 None\<close> and \<open>?\<close> is \<open>Rep k 0 (Some 1)\<close>; \<open>Mark\<close> stands for an opening
  or closing capture parenthesis; \<open>AtEnd\<close> is \<open>$\<close>.
\<close>

datatype piece = Chr jschar | Rep cclass nat "nat option" | Mark | AtEnd

fun first_some :: "('a \<Rightarrow> 'b option) \<Rightarrow> 'a list \<Rightarrow> 'b option" where
  "first_some f [] = None"
| "first_some f (x # xs) = (case f x of Some r \<Rightarrow> Some r | None \<Rightarrow> first_some f xs)"

text \<open>
  \<open>run ps s\<close> matches the pieces at the start of \<open>s\<close>. On success it returns the rest
  of the input at every \<open>Mark\<close> passed, in order, followed by the rest of the input
  after the whole match.
\<close>

fun run :: "piece list \<Rightarrow> jsstring \<Rightarrow> jsstring list option" where
  "run [] s = Some [s]"
| "run (Chr c # ps) s =
     (case s of [] \<Rightarrow> None | x # xs \<Rightarrow> if x = c then run ps xs else None)"
| "run (AtEnd # ps) s = (if s = [] then run ps s else None)"
| "run (Mark # ps) s = map_option (Cons s) (run ps s)"
| "run (Rep k lo hi # ps) s =
     (let n = length (takeWhile (in_class k) s);
          m = (case hi of None \<Rightarrow> n | Some h \<Rightarrow> min h n)
      in if m < lo then None
         else first_some (\<lambda>j. run ps (drop j s)) (rev [lo..<Suc m]))"

text \<open>
  The search of \<open>RegExpBuiltinExec\<close> for a non-global expression: start positions
  \<open>0, 1, \<dots>, length s\<close> in turn. \<open>search ps s i\<close> looks through \<open>s\<close>, the input from
  position \<open>i\<close> on, and returns the start position with the marks of \<open>run\<close>.
\<close>

fun search :: "piece list \<Rightarrow> jsstring \<Rightarrow> nat \<Rightarrow> (nat \<times> jsstring list) option" where
  "search ps [] i = map_option (Pair i) (run ps [])"
| "search ps (c # t) i =
     (case run ps (c # t) of
        Some ms \<Rightarrow> Some (i, ms)
      | None \<Rightarrow> search ps t (Suc i))"

definition regex_exec :: "piece list \<Rightarrow> jsstring \<Rightarrow> (nat \<times> jsstring list) option" where
  "regex_exec ps s = search ps s 0"

text \<open>The text between two marks: what a capture group holds.\<close>

definition between :: "jsstring \<Rightarrow> jsstring \<Rightarrow> jsstring" where
  "between a b = take (length a - length b) a"

text \<open>
  \<open>s.match(re)\<close> for an expression whose groups are not nested: the captures, or
  \<open>None\<close> for \<open>null\<close>. The captures are numbered from 0 here, so \<open>m[1]\<close> of the script
  is \<open>m ! 0\<close>; the script never reads \<open>m[0]\<close>, the whole match.
\<close>

fun groups :: "jsstring list \<Rightarrow> jsstring list" where
  "groups (a # b # ms) = between a b # groups ms"
| "groups ms = []"

definition match :: "jsstring \<Rightarrow> piece list \<Rightarrow> jsstring list option" where
  "match s ps = map_option (\<lambda>(i, ms). groups ms) (regex_exec ps s)"

text \<open>\<open>s.replace(re, '')\<close> for a non-global expression: the first match is cut out.\<close>

definition replace_empty :: "jsstring \<Rightarrow> piece list \<Rightarrow> jsstring" where
  "replace_empty s ps =
     (case regex_exec ps s of
        None \<Rightarrow> s
      | Some (i, ms) \<Rightarrow> take i s @ last ms)"

definition lit :: "string \<Rightarrow> piece list" where
  "lit w = map Chr (js w)"

section \<open>URL parser\<close>

text \<open>
  The errors of the script, by what raises them: \<open>InvalidUrl\<close>, \<open>AuthError\<close>, \<open>NotFound\<close>,
  \<open>RemoteApiError\<close> (with \<open>response.status\<close> and \<open>response.statusText\<close>), \<open>FetchFileFailed\<close>
  (with the file name and the status), \<open>JSZipLoadFailed\<close>, \<open>NoFilesDownloaded\<close> and
  \<open>EmptyArchive\<close> are the script's own \<open>throw new Error(\<dots>)\<close>, in the order of the source
  and told apart there by their messages; \<open>FetchRejected\<close> is a rejected \<open>fetch\<close>,
  \<open>JsonRejected\<close> a rejected \<open>response.json()\<close>, \<open>NotIterable\<close> the \<open>TypeError\<close> of \<open>for \<dots> of\<close>
  over a value that is not iterable, and \<open>InvalidCharacter\<close> the exception of \<open>atob\<close>.
\<close>

datatype error =
    InvalidUrl
  | AuthError
  | NotFound
  | RemoteApiError nat jsstring
  | FetchRejected
  | JsonRejected
  | NotIterable
  | FetchFileFailed jsstring nat
  | InvalidCharacter
  | JSZipLoadFailed
  | NoFilesDownloaded
  | EmptyArchive

text \<open>The object \<open>parseGitHubUrl\<close> returns.\<close>

record target =
  owner :: jsstring
  repo :: jsstring
  path :: jsstring
  isRepo :: bool

text \<open>\<open>/\/$/\<close>\<close>

definition trailingSlash :: "piece list" where
  "trailingSlash = [Chr slash, AtEnd]"

text \<open>\<open>/github\.com\/([^\/]+)\/([^\/]+)$/\<close>\<close>

definition repoRegex :: "piece list" where
  "repoRegex = lit ''github.com/'' @
     [Mark, Rep (Except slash) 1 None, Mark, Chr slash,
      Mark, Rep (Except slash) 1 None, Mark, AtEnd]"

text \<open>\<open>/github\.com\/([^\/]+)\/([^\/]+)\/tree\/[^\/]+\/?(.*)/\<close>\<close>

definition dirRegex :: "piece list" where
  "dirRegex = lit ''github.com/'' @
     [Mark, Rep (Except slash) 1 None, Mark, Chr slash,
      Mark, Rep (Except slash) 1 None, Mark] @
     lit ''/tree/'' @
     [Rep (Except slash) 1 None, Rep (Only slash) 0 (Some 1),
      Mark, Rep Dot 0 None, Mark]"

definition parseGitHubUrl :: "jsstring \<Rightarrow> error + target" where
  "parseGitHubUrl url0 =
     (let u = replace_empty url0 trailingSlash in
      case match u repoRegex of
        Some repoMatch \<Rightarrow>
          Inr \<lparr>owner = repoMatch ! 0, repo = repoMatch ! 1, path = [], isRepo = True\<rparr>
      | None \<Rightarrow>
          (case match u dirRegex of
             Some dirMatch \<Rightarrow>
               Inr \<lparr>owner = dirMatch ! 0, repo = dirMatch ! 1, path = dirMatch ! 2,
                    isRepo = False\<rparr>
           | None \<Rightarrow> Inl InvalidUrl))"

section \<open>Remote API and browser environment\<close>

text \<open>
  Responses are typed after the contents API: an entry of a directory listing and a
  single-file object have the fields \<open>type\<close>, \<open>path\<close>, \<open>sha\<close>, \<open>name\<close>, \<open>size\<close>, and a
  single-file object may carry \<open>content\<close>. The body of a response is a JSON array of
  entries, one JSON object, or text that \<open>response.json()\<close> rejects.
\<close>

record item =
  i_type :: jsstring
  i_path :: jsstring
  i_sha :: jsstring
  i_name :: jsstring
  i_size :: nat
  i_content :: "jsstring option"

datatype body = NotJson | JArray "item list" | JObject item

record response =
  status :: nat
  statusText :: jsstring
  body :: body

text \<open>\<open>response.ok\<close>: the status is in the range 200 to 299.\<close>

definition ok :: "response \<Rightarrow> bool" where
  "ok r \<longleftrightarrow> 200 \<le> status r \<and> status r \<le> 299"

record request =
  url :: jsstring
  authorization :: jsstring
  accept :: jsstring

type_synonym byte = "8 word"
type_synonym archive = "(jsstring \<times> byte list) list"

text \<open>
  What the script calls and does not define: \<open>fetch\<close> (\<open>None\<close>: the promise rejects),
  \<open>atob\<close> (\<open>None\<close>: it throws), whether \<open>JSZip\<close> is defined and whether loading its
  script succeeds, and the size of the blob \<open>generateAsync\<close> produces. The remote tree
  does not change during one operation: \<open>fetch\<close> is a function of the request.
\<close>

record env =
  fetch :: "request \<Rightarrow> response option"
  atob :: "jsstring \<Rightarrow> jsstring option"
  jszip_defined :: bool
  jszip_loads :: bool
  blob_size :: "archive \<Rightarrow> nat"

text \<open>
  Everything the script does to the outside is recorded, in order, as an event: a
  status line set by \<open>log\<close>, a request sent by \<open>fetch\<close>, a console warning or error,
  the download button disabled or enabled, the JSZip script tag added, and the click
  on the download link, with the link's \<open>download\<close> name and the archive behind it.
  A status line keeps the arguments of its text rather than the rendered text.
\<close>

datatype level = Info | Err | Success

datatype message =
    PleaseEnterUrl
  | ParsingUrl
  | FetchingContents
  | NoFilesFound
  | FoundFiles nat
  | DownloadCompleted
  | DownloadFailed error
  | Downloading jsstring nat nat
  | GeneratingZip nat
  | ZipCreated nat

datatype event =
    Log message level
  | Request request
  | WarnNoContent jsstring
  | WarnFailed jsstring error
  | ConsoleError error
  | Disabled bool
  | LoadScript
  | Save jsstring archive

text \<open>
  The URL and the headers of a request to the contents API. The script reads the
  token from the variable \<open>DIR_DL_TOKEN\<close>; here it is the argument \<open>tok\<close>.
\<close>

definition apiUrl :: "jsstring \<Rightarrow> jsstring \<Rightarrow> jsstring \<Rightarrow> jsstring" where
  "apiUrl ow rp p =
     js ''https://api.github.com/repos/'' @ ow @ js ''/'' @ rp @ js ''/contents/'' @ p"

definition api_request :: "jsstring \<Rightarrow> jsstring \<Rightarrow> jsstring \<Rightarrow> jsstring \<Rightarrow> request" where
  "api_request tok ow rp p =
     \<lparr>url = apiUrl ow rp p,
      authorization = js ''Bearer '' @ tok,
      accept = js ''application/vnd.github.v3+json''\<rparr>"

section \<open>Directory lister\<close>

record descriptor =
  f_path :: jsstring
  f_sha :: jsstring
  f_name :: jsstring
  f_size :: nat

definition descriptor_of :: "item \<Rightarrow> descriptor" where
  "descriptor_of it =
     \<lparr>f_path = i_path it, f_sha = i_sha it, f_name = i_name it, f_size = i_size it\<rparr>"

text \<open>The error thrown for a response that is not \<open>ok\<close>.\<close>

definition listing_error :: "response \<Rightarrow> error" where
  "listing_error r =
     (if status r = 401 then AuthError
      else if status r = 404 then NotFound
      else RemoteApiError (status r) (statusText r))"

text \<open>
  \<open>fetchDirectoryContents\<close> calls itself for every subdirectory and nothing bounds the
  depth of a remote tree, so the model takes fuel: the number of nested calls allowed.
  \<open>None\<close> means the fuel ran out. The state passed along is the array \<open>allFiles\<close>,
  which the calls share and push to, and the events so far. \<open>forItems\<close> is the
  \<open>for (const item of contents)\<close> loop.
\<close>

fun fetchDirectoryContents ::
    "nat \<Rightarrow> env \<Rightarrow> jsstring \<Rightarrow> jsstring \<Rightarrow> jsstring \<Rightarrow> jsstring \<Rightarrow>
     descriptor list \<times> event list \<Rightarrow> ((error + descriptor list) \<times> event list) option"
  and forItems ::
    "nat \<Rightarrow> env \<Rightarrow> jsstring \<Rightarrow> jsstring \<Rightarrow> jsstring \<Rightarrow> item list \<Rightarrow>
     descriptor list \<times> event list \<Rightarrow> ((error + descriptor list) \<times> event list) option"
where
  "fetchDirectoryContents 0 E tok ow rp p (allFiles, ev) = None"
| "fetchDirectoryContents (Suc n) E tok ow rp p (allFiles, ev) =
     (let ev' = ev @ [Request (api_request tok ow rp p)] in
      case fetch E (api_request tok ow rp p) of
        None \<Rightarrow> Some (Inl FetchRejected, ev')
      | Some response \<Rightarrow>
          if \<not> ok response then Some (Inl (listing_error response), ev')
          else (case body response of
                  NotJson \<Rightarrow> Some (Inl JsonRejected, ev')
                | JObject obj \<Rightarrow> Some (Inl NotIterable, ev')
                | JArray contents \<Rightarrow> forItems n E tok ow rp contents (allFiles, ev')))"
| "forItems n E tok ow rp [] (allFiles, ev) = Some (Inr allFiles, ev)"
| "forItems n E tok ow rp (it # items) (allFiles, ev) =
     (if i_type it = js ''file'' then
        forItems n E tok ow rp items (allFiles @ [descriptor_of it], ev)
      else if i_type it = js ''dir'' then
        (case fetchDirectoryContents n E tok ow rp (i_path it) (allFiles, ev) of
           None \<Rightarrow> None
         | Some (Inl e, ev') \<Rightarrow> Some (Inl e, ev')
         | Some (Inr allFiles', ev') \<Rightarrow> forItems n E tok ow rp items (allFiles', ev'))
      else forItems n E tok ow rp items (allFiles, ev))"

section \<open>Content fetcher and archive builder\<close>

text \<open>
  The body of the \<open>try\<close> block for one file: \<open>Inl\<close> is the error thrown and caught,
  \<open>Inr None\<close> the branch that warns of no content, \<open>Inr (Some bytes)\<close> the bytes handed
  to \<open>zip.file\<close>. A \<open>Uint8Array\<close> keeps the low eight bits of every character code.
\<close>

definition fetchFile ::
    "env \<Rightarrow> jsstring \<Rightarrow> jsstring \<Rightarrow> jsstring \<Rightarrow> descriptor \<Rightarrow> error + byte list option" where
  "fetchFile E tok ow rp file =
     (case fetch E (api_request tok ow rp (f_path file)) of
        None \<Rightarrow> Inl FetchRejected
      | Some response \<Rightarrow>
          if \<not> ok response then Inl (FetchFileFailed (f_name file) (status response))
          else (case body response of
                  NotJson \<Rightarrow> Inl JsonRejected
                | JArray xs \<Rightarrow> Inr None
                | JObject fileData \<Rightarrow>
                    (case i_content fileData of
                       None \<Rightarrow> Inr None
                     | Some c \<Rightarrow>
                         if c = [] then Inr None
                         else (case atob E (filter (\<lambda>x. x \<noteq> newline) c) of
                                 None \<Rightarrow> Inl InvalidCharacter
                               | Some binaryString \<Rightarrow> Inr (Some (map ucast binaryString))))))"

record zipstate =
  zip :: archive
  downloadedCount :: nat
  successfulDownloads :: nat
  events :: "event list"

text \<open>
  \<open>zip.file(name, data)\<close> sets the entry of that name: a new entry, or new data for
  the entry that is there. Folder entries are not modelled.
\<close>

fun zipLoop ::
    "env \<Rightarrow> jsstring \<Rightarrow> jsstring \<Rightarrow> jsstring \<Rightarrow> nat \<Rightarrow> descriptor list \<Rightarrow> zipstate \<Rightarrow> zipstate" where
  "zipLoop E tok ow rp totalFiles [] st = st"
| "zipLoop E tok ow rp totalFiles (file # files) st =
     (let ev = events st @
            [Log (Downloading (f_name file) (downloadedCount st + 1) totalFiles) Info,
             Request (api_request tok ow rp (f_path file))]
      in zipLoop E tok ow rp totalFiles files
           (case fetchFile E tok ow rp file of
              Inl e \<Rightarrow> st\<lparr>events := ev @ [WarnFailed (f_name file) e]\<rparr>
            | Inr None \<Rightarrow>
                st\<lparr>downloadedCount := downloadedCount st + 1,
                   events := ev @ [WarnNoContent (f_name file)]\<rparr>
            | Inr (Some bytes) \<Rightarrow>
                st\<lparr>zip := AList.update (f_path file) bytes (zip st),
                   downloadedCount := downloadedCount st + 1,
                   successfulDownloads := successfulDownloads st + 1,
                   events := ev\<rparr>))"

definition createAndDownloadZip ::
    "env \<Rightarrow> jsstring \<Rightarrow> descriptor list \<Rightarrow> jsstring \<Rightarrow> jsstring \<Rightarrow> jsstring \<Rightarrow> event list \<Rightarrow>
     (error + unit) \<times> event list" where
  "createAndDownloadZip E tok files folderName ow rp ev0 =
     (if \<not> jszip_defined E \<and> \<not> jszip_loads E then (Inl JSZipLoadFailed, ev0 @ [LoadScript])
      else
        let ev1 = (if jszip_defined E then ev0 else ev0 @ [LoadScript]);
            st = zipLoop E tok ow rp (length files) files
                   \<lparr>zip = [], downloadedCount = 0, successfulDownloads = 0, events = ev1\<rparr>
        in if successfulDownloads st = 0 then (Inl NoFilesDownloaded, events st)
           else
             let ev2 = events st @ [Log (GeneratingZip (successfulDownloads st)) Info] in
             if blob_size E (zip st) = 0 then (Inl EmptyArchive, ev2)
             else (Inr (),
                   ev2 @ [Save (folderName @ js ''.zip'') (zip st),
                          Log (ZipCreated (blob_size E (zip st))) Success]))"

section \<open>The download operation\<close>

text \<open>The \<open>catch\<close> and \<open>finally\<close> blocks of \<open>downloadContent\<close>.\<close>

definition failed :: "error \<Rightarrow> event list" where
  "failed e = [ConsoleError e, Log (DownloadFailed e) Err, Disabled False]"

definition folderName_of :: "target \<Rightarrow> jsstring" where
  "folderName_of t =
     (if isRepo t then repo t
      else repo t @ js ''-'' @
           (case pop (split_on slash (path t)) of
              None \<Rightarrow> js ''root''
            | Some seg \<Rightarrow> if seg = [] then js ''root'' else seg))"

definition downloadContent :: "nat \<Rightarrow> env \<Rightarrow> jsstring \<Rightarrow> jsstring \<Rightarrow> event list option" where
  "downloadContent fuel E tok input =
     (let u = trim input in
      if u = [] then Some [Log PleaseEnterUrl Err]
      else
        case parseGitHubUrl u of
          Inl e \<Rightarrow> Some ([Log ParsingUrl Info] @ failed e)
        | Inr t \<Rightarrow>
            (case fetchDirectoryContents fuel E tok (owner t) (repo t) (path t)
                    ([], [Log ParsingUrl Info, Log FetchingContents Info, Disabled True]) of
               None \<Rightarrow> None
             | Some (Inl e, ev) \<Rightarrow> Some (ev @ failed e)
             | Some (Inr files, ev) \<Rightarrow>
                 if files = [] then Some (ev @ [Log NoFilesFound Err, Disabled False])
                 else
                   (case createAndDownloadZip E tok files (folderName_of t) (owner t) (repo t)
                           (ev @ [Log (FoundFiles (length files)) Info]) of
                      (Inl e, ev') \<Rightarrow> Some (ev' @ failed e)
                    | (Inr x, ev') \<Rightarrow>
                        Some (ev' @ [Log DownloadCompleted Success, Disabled False]))))"

section \<open>Credential store\<close>

text \<open>
  The start of the script. \<open>storage\<close> is the item \<open>DIR_DL_TOKEN\<close> of \<open>localStorage\<close>,
  \<open>setItems\<close> the values written to it, \<open>alerts\<close> the number of alerts shown. The
  answers to \<open>window.prompt\<close> are an input list (\<open>None\<close>: the dialog was cancelled);
  the loop has no bound of its own, so a run that has used up the answers without a
  token is still \<open>Prompting\<close>.
\<close>

record session =
  storage :: "jsstring option"
  DIR_DL_TOKEN :: "jsstring option"
  isTokenValid :: bool
  alerts :: nat
  setItems :: "jsstring list"

datatype progress = Prompting session | Finished session "jsstring option list"

text \<open>\<open>!x\<close> for a value that is a string or \<open>null\<close>.\<close>

definition falsy :: "jsstring option \<Rightarrow> bool" where
  "falsy x \<longleftrightarrow> (case x of None \<Rightarrow> True | Some s \<Rightarrow> s = [])"

fun promptLoop :: "jsstring option list \<Rightarrow> session \<Rightarrow> progress" where
  "promptLoop [] st =
     (if \<not> isTokenValid st \<and> falsy (DIR_DL_TOKEN st) then Prompting st else Finished st [])"
| "promptLoop (resp # rs) st =
     (if \<not> isTokenValid st \<and> falsy (DIR_DL_TOKEN st) then
        (if falsy resp \<or> length (the resp) \<le> 10 then
           promptLoop rs (st\<lparr>alerts := alerts st + 1\<rparr>)
         else
           promptLoop rs
             (st\<lparr>storage := resp, DIR_DL_TOKEN := resp, isTokenValid := True,
                 setItems := setItems st @ [the resp]\<rparr>))
      else Finished st (resp # rs))"

definition startup :: "jsstring option \<Rightarrow> jsstring option list \<Rightarrow> progress" where
  "startup stored answers =
     promptLoop answers
       \<lparr>storage = stored,
        DIR_DL_TOKEN = (if falsy stored then None else stored),
        isTokenValid = False, alerts = 0, setItems = []\<rparr>"

section \<open>Remote trees\<close>

text \<open>
  The remote tree under a path, as the contents API shows it: regular files,
  directories with the entries listed under them, and entries of any other type
  (submodules, symbolic links).
\<close>

datatype rtree = RFile item | RDir item "rtree list" | ROther item

fun root_item :: "rtree \<Rightarrow> item" where
  "root_item (RFile i) = i"
| "root_item (RDir i cs) = i"
| "root_item (ROther i) = i"

text \<open>The request for \<open>p\<close> is answered with a successful listing of the entries \<open>cs\<close>.\<close>

definition listed :: "env \<Rightarrow> jsstring \<Rightarrow> jsstring \<Rightarrow> jsstring \<Rightarrow> jsstring \<Rightarrow> rtree list \<Rightarrow> bool" where
  "listed E tok ow rp p cs =
     (case fetch E (api_request tok ow rp p) of
        None \<Rightarrow> False
      | Some r \<Rightarrow> ok r \<and> body r = JArray (map root_item cs))"

text \<open>
  The remote serves the tree: every entry has the type of its kind, and every
  directory lists successfully, with its entries, under its own path.
\<close>

fun node_ok :: "env \<Rightarrow> jsstring \<Rightarrow> jsstring \<Rightarrow> jsstring \<Rightarrow> rtree \<Rightarrow> bool" where
  "node_ok E tok ow rp (RFile i) = (i_type i = js ''file'')"
| "node_ok E tok ow rp (ROther i) = (i_type i \<noteq> js ''file'' \<and> i_type i \<noteq> js ''dir'')"
| "node_ok E tok ow rp (RDir i cs) =
     (i_type i = js ''dir'' \<and> listed E tok ow rp (i_path i) cs \<and>
      list_all (node_ok E tok ow rp) cs)"

definition serves :: "env \<Rightarrow> jsstring \<Rightarrow> jsstring \<Rightarrow> jsstring \<Rightarrow> jsstring \<Rightarrow> rtree list \<Rightarrow> bool" where
  "serves E tok ow rp p cs \<longleftrightarrow> listed E tok ow rp p cs \<and> list_all (node_ok E tok ow rp) cs"

text \<open>
  The regular files reachable in a tree, depth first, in listing order: for each, the
  File Descriptor with the path, the sha, the name and the size of its entry.
\<close>

fun flat :: "rtree \<Rightarrow> descriptor list" where
  "flat (RFile i) =
     [\<lparr>f_path = i_path i, f_sha = i_sha i, f_name = i_name i, f_size = i_size i\<rparr>]"
| "flat (RDir i cs) = concat (map flat cs)"
| "flat (ROther i) = []"

text \<open>The listing requests for the subdirectories of a tree, depth first.\<close>

fun walk :: "jsstring \<Rightarrow> jsstring \<Rightarrow> jsstring \<Rightarrow> rtree \<Rightarrow> request list" where
  "walk tok ow rp (RFile i) = []"
| "walk tok ow rp (RDir i cs) = api_request tok ow rp (i_path i) # concat (map (walk tok ow rp) cs)"
| "walk tok ow rp (ROther i) = []"

text \<open>The depth of a tree: how many listings are nested in it.\<close>

fun height :: "rtree \<Rightarrow> nat" where
  "height (RFile i) = 0"
| "height (RDir i cs) = Suc (foldr max (map height cs) 0)"
| "height (ROther i) = 0"

text \<open>The request is answered with a successful response that holds a JSON array.\<close>

definition listing_ok :: "env \<Rightarrow> request \<Rightarrow> bool" where
  "listing_ok E q =
     (case fetch E q of
        None \<Rightarrow> False
      | Some r \<Rightarrow> ok r \<and> (case body r of JArray xs \<Rightarrow> True | NotJson \<Rightarrow> False | JObject x \<Rightarrow> False))"

text \<open>
  A listing in which a request is refused. \<open>Here\<close>: the request for the path itself is
  answered with a response that is not \<open>ok\<close>. \<open>Below pre d fp post\<close>: the path lists
  successfully; its entries are those of the trees \<open>pre\<close>, which the remote serves,
  then the directory \<open>d\<close>, under whose path the refused request lies as \<open>fp\<close> tells,
  then the entries \<open>post\<close>.
\<close>

datatype fpath = Here | Below "rtree list" item fpath "item list"

fun refused :: "env \<Rightarrow> jsstring \<Rightarrow> jsstring \<Rightarrow> jsstring \<Rightarrow> jsstring \<Rightarrow> fpath \<Rightarrow> response \<Rightarrow> bool" where
  "refused E tok ow rp p Here r =
     (fetch E (api_request tok ow rp p) = Some r \<and> \<not> ok r)"
| "refused E tok ow rp p (Below pre d fp post) r =
     ((case fetch E (api_request tok ow rp p) of
         None \<Rightarrow> False
       | Some r' \<Rightarrow> ok r' \<and> body r' = JArray (map root_item pre @ d # post)) \<and>
      list_all (node_ok E tok ow rp) pre \<and>
      i_type d = js ''dir'' \<and>
      refused E tok ow rp (i_path d) fp r)"

text \<open>The requests up to the refused one, which is the last, and the files listed before it.\<close>

fun requests_until :: "jsstring \<Rightarrow> jsstring \<Rightarrow> jsstring \<Rightarrow> jsstring \<Rightarrow> fpath \<Rightarrow> request list" where
  "requests_until tok ow rp p Here = [api_request tok ow rp p]"
| "requests_until tok ow rp p (Below pre d fp post) =
     api_request tok ow rp p # concat (map (walk tok ow rp) pre) @
     requests_until tok ow rp (i_path d) fp"

fun depth_until :: "fpath \<Rightarrow> nat" where
  "depth_until Here = 0"
| "depth_until (Below pre d fp post) =
     Suc (max (foldr max (map height pre) 0) (depth_until fp))"


section \<open>Payloads\<close>

text \<open>
  The payload of a file: the \<open>content\<close> field of the single-file object in a successful
  response to the request for the file.
\<close>

definition payload :: "env \<Rightarrow> jsstring \<Rightarrow> jsstring \<Rightarrow> jsstring \<Rightarrow> descriptor \<Rightarrow> jsstring option" where
  "payload E tok ow rp f =
     (case fetch E (api_request tok ow rp (f_path f)) of
        None \<Rightarrow> None
      | Some r \<Rightarrow>
          if ok r then (case body r of JObject d \<Rightarrow> i_content d | NotJson \<Rightarrow> None | JArray xs \<Rightarrow> None)
          else None)"

text \<open>The base64 decoding of a payload with its newline characters stripped, as bytes.\<close>

definition decode :: "env \<Rightarrow> jsstring \<Rightarrow> byte list option" where
  "decode E c = map_option (map ucast) (atob E (filter (\<lambda>x. x \<noteq> newline) c))"

text \<open>A file counts as downloaded when its payload is not empty and decodes.\<close>

definition downloaded :: "env \<Rightarrow> jsstring \<Rightarrow> jsstring \<Rightarrow> jsstring \<Rightarrow> descriptor \<Rightarrow> bool" where
  "downloaded E tok ow rp f =
     (case payload E tok ow rp f of
        None \<Rightarrow> False
      | Some c \<Rightarrow> c \<noteq> [] \<and> decode E c \<noteq> None)"

section \<open>Reading the events\<close>

text \<open>The requests sent and the archives saved, in order, among a list of events.\<close>

fun requests_of :: "event list \<Rightarrow> request list" where
  "requests_of [] = []"
| "requests_of (Request q # ev) = q # requests_of ev"
| "requests_of (e # ev) = requests_of ev"

fun saves_of :: "event list \<Rightarrow> (jsstring \<times> archive) list" where
  "saves_of [] = []"
| "saves_of (Save nm a # ev) = (nm, a) # saves_of ev"
| "saves_of (e # ev) = saves_of ev"

section \<open>A sample remote\<close>

text \<open>
  \<open>atob\<close> as the HTML standard defines it (forgiving-base64 decode): ASCII white space
  is removed, up to two padding characters are dropped from input whose length is a
  multiple of four, and the rest is read six bits a character. It throws on a
  character outside the alphabet and on a length that leaves one character over.
\<close>

definition b64_value :: "jschar \<Rightarrow> nat option" where
  "b64_value c =
     (let n = unat c in
      if 65 \<le> n \<and> n \<le> 90 then Some (n - 65)
      else if 97 \<le> n \<and> n \<le> 122 then Some (n - 71)
      else if 48 \<le> n \<and> n \<le> 57 then Some (n + 4)
      else if n = 43 then Some 62
      else if n = 47 then Some 63
      else None)"

fun b64_bytes :: "nat list \<Rightarrow> nat list" where
  "b64_bytes (a # b # c # d # r) =
     (a * 4 + b div 16) # ((b mod 16) * 16 + c div 4) # ((c mod 4) * 64 + d) # b64_bytes r"
| "b64_bytes [a, b, c] = [a * 4 + b div 16, (b mod 16) * 16 + c div 4]"
| "b64_bytes [a, b] = [a * 4 + b div 16]"
| "b64_bytes r = []"

definition strip_padding :: "jsstring \<Rightarrow> jsstring" where
  "strip_padding d =
     (if length d mod 4 = 0 \<and> d \<noteq> [] \<and> last d = 0x3D then
        (if butlast d \<noteq> [] \<and> last (butlast d) = 0x3D then butlast (butlast d) else butlast d)
      else d)"

definition atob_std :: "jsstring \<Rightarrow> jsstring option" where
  "atob_std d0 =
     (let d = strip_padding (filter (\<lambda>c. c \<notin> {0x09, 0x0A, 0x0C, 0x0D, 0x20}) d0) in
      if length d mod 4 = 1 then None
      else if list_all (\<lambda>c. b64_value c \<noteq> None) d then
        Some (map of_nat (b64_bytes (map (\<lambda>c. the (b64_value c)) d)))
      else None)"

text \<open>
  A repository \<open>acme/widgets\<close>. Under \<open>src\<close> are a file, a directory \<open>docs\<close> whose
  listing answers 404, and the directory \<open>utils\<close>; under \<open>src/utils\<close> are a file, a
  subdirectory with one file, a symbolic link, an empty file, and a file whose
  content request answers 404. A request with another token is answered 401. The body
  of a response that is not \<open>ok\<close> is never read.
\<close>

definition tok0 :: jsstring where
  "tok0 = js ''ghp_0123456789abcdef''"

definition entry :: "string \<Rightarrow> string \<Rightarrow> string \<Rightarrow> string \<Rightarrow> nat \<Rightarrow> item" where
  "entry ty p sha nm sz =
     \<lparr>i_type = js ty, i_path = js p, i_sha = js sha, i_name = js nm, i_size = sz,
      i_content = None\<rparr>"

definition x_txt :: item where "x_txt = entry ''file'' ''src/x.txt'' ''1f'' ''x.txt'' 1"
definition docs_dir :: item where "docs_dir = entry ''dir'' ''src/docs'' ''2d'' ''docs'' 0"
definition utils_dir :: item where "utils_dir = entry ''dir'' ''src/utils'' ''3d'' ''utils'' 0"
definition a_txt :: item where "a_txt = entry ''file'' ''src/utils/a.txt'' ''4f'' ''a.txt'' 2"
definition sub_dir :: item where "sub_dir = entry ''dir'' ''src/utils/sub'' ''5d'' ''sub'' 0"
definition b_txt :: item where "b_txt = entry ''file'' ''src/utils/sub/b.txt'' ''6f'' ''b.txt'' 5"
definition link :: item where "link = entry ''symlink'' ''src/utils/link'' ''7l'' ''link'' 9"
definition empty_file :: item where "empty_file = entry ''file'' ''src/utils/empty'' ''8f'' ''empty'' 0"
definition gone_txt :: item where "gone_txt = entry ''file'' ''src/utils/gone.txt'' ''9f'' ''gone.txt'' 7"

definition remote0 :: "(jsstring \<times> body) list" where
  "remote0 =
     [(js ''src'', JArray [x_txt, docs_dir, utils_dir]),
      (js ''src/utils'', JArray [a_txt, sub_dir, link, empty_file, gone_txt]),
      (js ''src/utils/sub'', JArray [b_txt]),
      (js ''src/utils/a.txt'', JObject (a_txt\<lparr>i_content := Some (js ''aGk='' @ [newline])\<rparr>)),
      (js ''src/utils/sub/b.txt'',
         JObject (b_txt\<lparr>i_content := Some (js ''aGVs'' @ [newline] @ js ''bG8='' @ [newline])\<rparr>)),
      (js ''src/utils/empty'', JObject (empty_file\<lparr>i_content := Some []\<rparr>))]"

definition env0 :: env where
  "env0 =
     \<lparr>fetch = (\<lambda>q.
        if authorization q \<noteq> js ''Bearer '' @ tok0 then
          Some \<lparr>status = 401, statusText = js ''Unauthorized'', body = NotJson\<rparr>
        else
          case map_of (map (\<lambda>(p, b). (apiUrl (js ''acme'') (js ''widgets'') p, b)) remote0) (url q) of
            Some b \<Rightarrow> Some \<lparr>status = 200, statusText = js ''OK'', body = b\<rparr>
          | None \<Rightarrow> Some \<lparr>status = 404, statusText = js ''Not Found'', body = NotJson\<rparr>),
      atob = atob_std,
      jszip_defined = False,
      jszip_loads = True,
      blob_size = (\<lambda>a. 22 + 100 * length a)\<rparr>"

definition tree0 :: "rtree list" where
  "tree0 = [RFile a_txt, RDir sub_dir [RFile b_txt], ROther link, RFile empty_file, RFile gone_txt]"

section \<open>Backtracking and search\<close>







lemma search_SomeD:
  "search ps s i = Some (n, ms) \<Longrightarrow>
   \<exists>j. n = i + j \<and> j \<le> length s \<and> run ps (drop j s) = Some ms \<and>
       (\<forall>j'<j. run ps (drop j' s) = None)"
proof (induction s arbitrary: i)
  case Nil
  then show ?case by auto
next
  case (Cons c t)
  show ?case
  proof (cases "run ps (c # t)")
    case (Some ms')
    with Cons.prems show ?thesis by (intro exI [of _ 0]) auto
  next
    case None
    with Cons.prems have "search ps t (Suc i) = Some (n, ms)" by simp
    from Cons.IH [OF this] obtain j where j: "n = Suc i + j" "j \<le> length t"
      "run ps (drop j t) = Some ms" "\<forall>j'<j. run ps (drop j' t) = None" by blast
    have "\<forall>j'<Suc j. run ps (drop j' (c # t)) = None"
    proof (intro allI impI)
      fix j' assume "j' < Suc j"
      then show "run ps (drop j' (c # t)) = None"
        using None j(4) by (cases j') auto
    qed
    with j show ?thesis by (intro exI [of _ "Suc j"]) auto
  qed
qed

lemma search_None_iff:
  "search ps s i = None \<longleftrightarrow> (\<forall>j\<le>length s. run ps (drop j s) = None)"
proof (induction s arbitrary: i)
  case Nil
  show ?case by simp
next
  case (Cons c t)
  show ?case
  proof (cases "run ps (c # t)")
    case (Some ms)
    then show ?thesis by (auto intro: exI [of _ 0])
  next
    case None
    have "(\<forall>j\<le>length (c # t). run ps (drop j (c # t)) = None) \<longleftrightarrow>
          (\<forall>j\<le>length t. run ps (drop j t) = None)"
    proof
      assume a: "\<forall>j\<le>length (c # t). run ps (drop j (c # t)) = None"
      show "\<forall>j\<le>length t. run ps (drop j t) = None"
      proof (intro allI impI)
        fix j assume "j \<le> length t"
        then show "run ps (drop j t) = None" using a [rule_format, of "Suc j"] by simp
      qed
    next
      assume a: "\<forall>j\<le>length t. run ps (drop j t) = None"
      show "\<forall>j\<le>length (c # t). run ps (drop j (c # t)) = None"
      proof (intro allI impI)
        fix j assume "j \<le> length (c # t)"
        then show "run ps (drop j (c # t)) = None" using a None by (cases j) auto
      qed
    qed
    with None Cons.IH show ?thesis by simp
  qed
qed


section \<open>Credential store: the prompt loop\<close>

lemma promptLoop_rejects:
  "\<not> isTokenValid st \<Longrightarrow> falsy (DIR_DL_TOKEN st) \<Longrightarrow>
   list_all (\<lambda>r. falsy r \<or> length (the r) \<le> 10) bad \<Longrightarrow>
   promptLoop (bad @ rest) st = promptLoop rest (st\<lparr>alerts := alerts st + length bad\<rparr>)"
  by (induction bad arbitrary: st) auto

text \<open>
  C8: on startup with no stored token, every answer to the prompt that is missing,
  empty or at most 10 characters long is rejected with an alert and the prompt is
  shown again, nothing being written to storage; the first answer longer than 10
  characters is accepted and written to storage, and the loop ends there.
\<close>

theorem credential_prompt_loop:
  assumes "falsy stored"
    and "list_all (\<lambda>r. falsy r \<or> length (the r) \<le> 10) bad"
  shows "startup stored bad =
           Prompting \<lparr>storage = stored, DIR_DL_TOKEN = None, isTokenValid = False,
                      alerts = length bad, setItems = []\<rparr> \<and>
         (10 < length tok \<longrightarrow>
          startup stored (bad @ Some tok # rest) =
            Finished \<lparr>storage = Some tok, DIR_DL_TOKEN = Some tok, isTokenValid = True,
                      alerts = length bad, setItems = [tok]\<rparr> rest)"
proof -
  let ?st = "\<lparr>storage = stored, DIR_DL_TOKEN = None, isTokenValid = False,
              alerts = 0, setItems = []\<rparr>"
  have a: "promptLoop (bad @ xs) ?st = promptLoop xs (?st\<lparr>alerts := alerts ?st + length bad\<rparr>)" for xs
    using assms(2) by (intro promptLoop_rejects) (simp_all add: falsy_def)
  from a [of "[]"] have "promptLoop bad ?st = Prompting (?st\<lparr>alerts := length bad\<rparr>)"
    by (simp add: falsy_def)
  moreover have "promptLoop (bad @ Some tok # rest) ?st =
      Finished \<lparr>storage = Some tok, DIR_DL_TOKEN = Some tok, isTokenValid = True,
                alerts = length bad, setItems = [tok]\<rparr> rest" if "10 < length tok"
    using that a [of "Some tok # rest"] by (cases rest) (auto simp: falsy_def)
  ultimately show ?thesis using assms(1) by (simp add: startup_def)
qed

theorem credential_prompt_loop_witness:
  "startup None [None, Some [], Some (js ''0123456789'')] =
     Prompting \<lparr>storage = None, DIR_DL_TOKEN = None, isTokenValid = False,
                alerts = 3, setItems = []\<rparr> \<and>
   startup None [None, Some [], Some (js ''0123456789''), Some (js ''ghp_0123456789''), None] =
     Finished \<lparr>storage = Some (js ''ghp_0123456789''),
               DIR_DL_TOKEN = Some (js ''ghp_0123456789''), isTokenValid = True,
               alerts = 3, setItems = [js ''ghp_0123456789'']\<rparr> [None]"
  using credential_prompt_loop [of None "[None, Some [], Some (js ''0123456789'')]"
          "js ''ghp_0123456789''" "[None]"]
  by (simp add: falsy_def js_def)

section \<open>The parser's expressions\<close>

lemma run_trailingSlash: "run trailingSlash t = (if t = [slash] then Some [[]] else None)"
  by (cases t) (auto simp: trailingSlash_def)

lemma strip_trailing_slash:
  "replace_empty s trailingSlash = (if s \<noteq> [] \<and> last s = slash then butlast s else s)"
proof (cases "regex_exec trailingSlash s")
  case None
  then have n: "\<And>j. j \<le> length s \<Longrightarrow> drop j s \<noteq> [slash]"
    by (auto simp: regex_exec_def search_None_iff run_trailingSlash split: if_splits)
  have "\<not> (s \<noteq> [] \<and> last s = slash)"
  proof
    assume a: "s \<noteq> [] \<and> last s = slash"
    then have "drop (length (butlast s)) (butlast s @ [last s]) = [slash]"
      by simp
    moreover from a have "butlast s @ [last s] = s"
      by (intro append_butlast_last_id) simp
    ultimately have "drop (length s - 1) s = [slash]"
      by (simp only: length_butlast)
    with n [of "length s - 1"] show False by simp
  qed
  with None show ?thesis by (auto simp: replace_empty_def)
next
  case (Some a)
  obtain n ms where a: "a = (n, ms)" by (cases a)
  from Some a search_SomeD [of trailingSlash s 0 n ms]
  obtain j where j: "n = j" "j \<le> length s" "run trailingSlash (drop j s) = Some ms"
    by (auto simp: regex_exec_def)
  then have d: "drop j s = [slash]" and ms: "ms = [[]]"
    by (auto simp: run_trailingSlash split: if_splits)
  have s: "s = take j s @ [slash]" using d append_take_drop_id [of j s] by simp
  then have "s \<noteq> []" "last s = slash" "butlast s = take j s"
    by (metis snoc_eq_iff_butlast)+
  with Some a j(1) ms show ?thesis by (simp add: replace_empty_def)
qed























section \<open>URL parser: directory URLs\<close>






section \<open>Evaluation of the samples\<close>

text \<open>The definitions that the simplifier unfolds to run the model on the samples.\<close>

lemmas parse_eval = parseGitHubUrl_def replace_empty_def regex_exec_def match_def trailingSlash_def
  repoRegex_def dirRegex_def lit_def js_def slash_def between_def Let_def trim_def is_js_space_def

lemmas sample_eval = env0_def remote0_def tree0_def api_request_def apiUrl_def js_def tok0_def
  entry_def x_txt_def docs_dir_def utils_dir_def a_txt_def sub_dir_def b_txt_def link_def
  empty_file_def gone_txt_def descriptor_of_def ok_def newline_def slash_def
  serves_def listed_def listing_error_def Let_def
  createAndDownloadZip_def fetchFile_def atob_std_def strip_padding_def b64_value_def
  payload_def decode_def downloaded_def

section \<open>URL parser: unanchored patterns\<close>




text \<open>
  C5: the parser at a directory URL whose path ends in \<open>github.com/<owner>/<repo>\<close>, as
  the vendored packages of a Go repository do. The whole-repository pattern is tried
  first and is not anchored, so the URL is parsed as another repository.
\<close>

theorem parser_vendor_directory:
  "parseGitHubUrl
     (js ''https://github.com/kubernetes/kubernetes/tree/master/vendor/github.com/spf13/cobra'') =
   Inr \<lparr>owner = js ''spf13'', repo = js ''cobra'', path = [], isRepo = True\<rparr>"
  by (simp add: parse_eval)

section \<open>Directory lister: remote trees\<close>

lemma foldr_max_ge: "x \<in> set xs \<Longrightarrow> x \<le> foldr max xs (0::nat)"
  by (induction xs) auto

lemma forItems_tree:
  "node_ok E tok ow rp t \<Longrightarrow> height t \<le> n \<Longrightarrow>
   forItems n E tok ow rp (root_item t # items) (acc, ev) =
   forItems n E tok ow rp items (acc @ flat t, ev @ map Request (walk tok ow rp t))"
proof (induction t arbitrary: n items acc ev)
  case (RFile i)
  then show ?case by (simp add: descriptor_of_def)
next
  case (ROther i)
  then show ?case by simp
next
  case (RDir i cs)
  from RDir.prems obtain m where n: "n = Suc m" and m: "foldr max (map height cs) 0 \<le> m"
    by (cases n) auto
  from RDir.prems have ty: "i_type i = js ''dir''" "i_type i \<noteq> js ''file''"
    by (auto simp: js_def)
  from RDir.prems obtain r where r: "fetch E (api_request tok ow rp (i_path i)) = Some r"
    "ok r" "body r = JArray (map root_item cs)"
    by (auto simp: listed_def split: option.splits)
  have sub: "forItems m E tok ow rp (map root_item ds @ items') (acc', ev') =
             forItems m E tok ow rp items'
               (acc' @ concat (map flat ds), ev' @ map Request (concat (map (walk tok ow rp) ds)))"
    if "set ds \<subseteq> set cs" for ds items' acc' ev'
    using that
  proof (induction ds arbitrary: acc' ev')
    case Nil
    show ?case by simp
  next
    case (Cons d ds)
    then have d: "d \<in> set cs" by simp
    then have "node_ok E tok ow rp d" using RDir.prems(1) by (simp add: list_all_iff)
    moreover have "height d \<le> m"
      using foldr_max_ge [of "height d" "map height cs"] d m by force
    ultimately have "forItems m E tok ow rp (root_item d # map root_item ds @ items') (acc', ev') =
      forItems m E tok ow rp (map root_item ds @ items')
        (acc' @ flat d, ev' @ map Request (walk tok ow rp d))"
      using RDir.IH [OF d] by blast
    with Cons show ?case by simp
  qed
  have "fetchDirectoryContents n E tok ow rp (i_path i) (acc, ev) =
        Some (Inr (acc @ concat (map flat cs)),
              (ev @ [Request (api_request tok ow rp (i_path i))]) @
                 map Request (concat (map (walk tok ow rp) cs)))"
    using sub [of cs "[]"] r by (simp add: n)
  then show ?case using ty by simp
qed

lemma forItems_trees:
  "list_all (node_ok E tok ow rp) cs \<Longrightarrow> foldr max (map height cs) 0 \<le> n \<Longrightarrow>
   forItems n E tok ow rp (map root_item cs) (acc, ev) =
   Some (Inr (acc @ concat (map flat cs)), ev @ map Request (concat (map (walk tok ow rp) cs)))"
proof (induction cs arbitrary: acc ev)
  case Nil
  show ?case by simp
next
  case (Cons c cs)
  then have "forItems n E tok ow rp (root_item c # map root_item cs) (acc, ev) =
      forItems n E tok ow rp (map root_item cs)
        (acc @ flat c, ev @ map Request (walk tok ow rp c))"
    by (intro forItems_tree) simp_all
  with Cons show ?case by (simp del: forItems.simps)
qed

lemma lister_refines:
  assumes "serves E tok ow rp p cs" and "foldr max (map height cs) 0 < fuel"
  shows "fetchDirectoryContents fuel E tok ow rp p (acc, ev) =
           Some (Inr (acc @ concat (map flat cs)),
                 ev @ Request (api_request tok ow rp p) #
                      map Request (concat (map (walk tok ow rp) cs)))"
proof -
  from assms(2) obtain n where n: "fuel = Suc n" "foldr max (map height cs) 0 \<le> n"
    by (cases fuel) auto
  from assms(1) obtain r where r: "fetch E (api_request tok ow rp p) = Some r"
    "ok r" "body r = JArray (map root_item cs)"
    by (auto simp: serves_def listed_def split: option.splits)
  from assms(1) have "list_all (node_ok E tok ow rp) cs" by (simp add: serves_def)
  from forItems_trees [OF this n(2)] r show ?thesis by (simp add: n(1))
qed


section \<open>Directory lister: requests and failures\<close>

lemma lister_trace:
  "fetchDirectoryContents n E tok ow rp p st = Some (res, ev') \<Longrightarrow>
     \<exists>rs q. ev' = snd st @ map Request (rs @ [q]) \<and> list_all (listing_ok E) rs \<and>
       (case res of
          Inr fs \<Rightarrow> listing_ok E q
        | Inl e \<Rightarrow> \<not> listing_ok E q \<and>
                   (\<forall>r. fetch E q = Some r \<longrightarrow> \<not> ok r \<longrightarrow> e = listing_error r))"
  "forItems n E tok ow rp items st = Some (res, ev') \<Longrightarrow>
     \<exists>rs. ev' = snd st @ map Request rs \<and>
       (case res of
          Inr fs \<Rightarrow> list_all (listing_ok E) rs
        | Inl e \<Rightarrow> rs \<noteq> [] \<and> list_all (listing_ok E) (butlast rs) \<and>
                   \<not> listing_ok E (last rs) \<and>
                   (\<forall>r. fetch E (last rs) = Some r \<longrightarrow> \<not> ok r \<longrightarrow> e = listing_error r))"
proof (induction n E tok ow rp p st and n E tok ow rp items st arbitrary: res ev' and res ev'
       rule: fetchDirectoryContents_forItems.induct)
  case (1 E tok ow rp p allFiles ev)
  then show ?case by simp
next
  case (2 n E tok ow rp p allFiles ev)
  let ?q = "api_request tok ow rp p"
  show ?case
  proof (cases "listing_ok E ?q")
    case False
    with "2.prems" have "ev' = ev @ map Request ([] @ [?q])" 
      and "case res of Inr fs \<Rightarrow> False
           | Inl e \<Rightarrow> (\<forall>r. fetch E ?q = Some r \<longrightarrow> \<not> ok r \<longrightarrow> e = listing_error r)"
      by (auto simp: listing_ok_def Let_def split: option.splits if_splits body.splits)
    with False show ?thesis
      by (intro exI [of _ "[]"] exI [of _ ?q]) (auto split: sum.splits)
  next
    case True
    then obtain r contents where r: "fetch E ?q = Some r" "ok r" "body r = JArray contents"
      by (auto simp: listing_ok_def split: option.splits body.splits)
    with "2.prems" have run: "forItems n E tok ow rp contents (allFiles, ev @ [Request ?q]) =
        Some (res, ev')" by simp
    from "2.IH" [OF refl r(1) _ r(3) run] r(2)
    obtain rs where rs: "ev' = (ev @ [Request ?q]) @ map Request rs"
      "case res of Inr fs \<Rightarrow> list_all (listing_ok E) rs
       | Inl e \<Rightarrow> rs \<noteq> [] \<and> list_all (listing_ok E) (butlast rs) \<and>
                   \<not> listing_ok E (last rs) \<and>
                   (\<forall>r. fetch E (last rs) = Some r \<longrightarrow> \<not> ok r \<longrightarrow> e = listing_error r)"
      by auto
    have e: "?q # rs = butlast (?q # rs) @ [last (?q # rs)]" by simp
    have "ev' = ev @ map Request (butlast (?q # rs) @ [last (?q # rs)])"
      unfolding e [symmetric] using rs(1) by simp
    moreover have "list_all (listing_ok E) (butlast (?q # rs))"
      using rs(2) True by (cases res) (auto simp: list_all_iff dest: in_set_butlastD)
    moreover have "case res of Inr fs \<Rightarrow> listing_ok E (last (?q # rs))
        | Inl e \<Rightarrow> \<not> listing_ok E (last (?q # rs)) \<and>
            (\<forall>r. fetch E (last (?q # rs)) = Some r \<longrightarrow> \<not> ok r \<longrightarrow> e = listing_error r)"
      using rs(2) True by (cases res) (auto simp: list_all_iff)
    ultimately show ?thesis
      by (intro exI [of _ "butlast (?q # rs)"] exI [of _ "last (?q # rs)"] conjI)
         (simp_all only: snd_conv)
  qed
next
  case (3 n E tok ow rp allFiles ev)
  then show ?case by (intro exI [of _ "[]"]) auto
next
  case (4 n E tok ow rp it items allFiles ev)
  consider (a_file) "i_type it = js ''file''"
    | (a_dir) "i_type it \<noteq> js ''file''" "i_type it = js ''dir''"
    | (another) "i_type it \<noteq> js ''file''" "i_type it \<noteq> js ''dir''" by blast
  then show ?case
  proof cases
    case a_file
    with "4.prems" have "forItems n E tok ow rp items (allFiles @ [descriptor_of it], ev) =
        Some (res, ev')" by simp
    from "4.IH"(1) [OF a_file this] show ?thesis by simp
  next
    case another
    with "4.prems" have "forItems n E tok ow rp items (allFiles, ev) = Some (res, ev')" by simp
    from "4.IH"(4) [OF another this] show ?thesis by simp
  next
    case a_dir
    from "4.prems" a_dir obtain res1 ev1 where
      sub: "fetchDirectoryContents n E tok ow rp (i_path it) (allFiles, ev) = Some (res1, ev1)"
      by (auto split: option.splits)
    from "4.IH"(2) [OF a_dir sub] obtain rs q where
      t1: "ev1 = ev @ map Request (rs @ [q])" "list_all (listing_ok E) rs"
      "case res1 of Inr fs \<Rightarrow> listing_ok E q
       | Inl e \<Rightarrow> \<not> listing_ok E q \<and>
                   (\<forall>r. fetch E q = Some r \<longrightarrow> \<not> ok r \<longrightarrow> e = listing_error r)"
      by auto
    show ?thesis
    proof (cases res1)
      case (Inl e)
      with "4.prems" a_dir sub have "res = Inl e" "ev' = ev1" by simp_all
      with t1 Inl show ?thesis
        by (intro exI [of _ "rs @ [q]"]) simp
    next
      case (Inr fs)
      with "4.prems" a_dir sub have run: "forItems n E tok ow rp items (fs, ev1) = Some (res, ev')"
        by simp
      from "4.IH"(3) [OF a_dir sub refl Inr run] obtain rs2 where
        t2: "ev' = ev1 @ map Request rs2"
        "case res of Inr fs \<Rightarrow> list_all (listing_ok E) rs2
         | Inl e \<Rightarrow> rs2 \<noteq> [] \<and> list_all (listing_ok E) (butlast rs2) \<and>
                   \<not> listing_ok E (last rs2) \<and>
                   (\<forall>r. fetch E (last rs2) = Some r \<longrightarrow> \<not> ok r \<longrightarrow> e = listing_error r)"
        by auto
      from t1 t2 Inr show ?thesis
        by (intro exI [of _ "rs @ [q] @ rs2"])
           (auto simp: butlast_append split: sum.splits)
    qed
  qed
qed

text \<open>A result, once returned, is the result for every larger fuel.\<close>

lemma lister_fuel_mono:
  "fetchDirectoryContents n E tok ow rp p st = Some x \<Longrightarrow>
   fetchDirectoryContents (Suc n) E tok ow rp p st = Some x"
  "forItems n E tok ow rp items st = Some x \<Longrightarrow>
   forItems (Suc n) E tok ow rp items st = Some x"
proof (induction n E tok ow rp p st and n E tok ow rp items st arbitrary: x and x
       rule: fetchDirectoryContents_forItems.induct)
  case (1 E tok ow rp p allFiles ev)
  then show ?case by simp
next
  case (2 n E tok ow rp p allFiles ev)
  show ?case
  proof (cases "fetch E (api_request tok ow rp p)")
    case None
    with "2.prems" show ?thesis by simp
  next
    case (Some r)
    show ?thesis
    proof (cases "ok r")
      case False
      with Some "2.prems" show ?thesis by simp
    next
      case True
      show ?thesis
      proof (cases "body r")
        case NotJson
        with Some True "2.prems" show ?thesis by simp
      next
        case (JObject obj)
        with Some True "2.prems" show ?thesis by simp
      next
        case (JArray contents)
        with Some True "2.prems" have
          "forItems n E tok ow rp contents (allFiles, ev @ [Request (api_request tok ow rp p)]) = Some x"
          by simp
        from "2.IH" [OF refl Some _ JArray this] True
        have "forItems (Suc n) E tok ow rp contents
                (allFiles, ev @ [Request (api_request tok ow rp p)]) = Some x" by simp
        with Some True JArray show ?thesis by simp
      qed
    qed
  qed
next
  case (3 n E tok ow rp allFiles ev)
  then show ?case by simp
next
  case (4 n E tok ow rp it items allFiles ev)
  consider (a_file) "i_type it = js ''file''"
    | (a_dir) "i_type it \<noteq> js ''file''" "i_type it = js ''dir''"
    | (another) "i_type it \<noteq> js ''file''" "i_type it \<noteq> js ''dir''" by blast
  then show ?case
  proof cases
    case a_file
    with "4.prems" "4.IH"(1) show ?thesis by simp
  next
    case another
    with "4.prems" "4.IH"(4) show ?thesis by simp
  next
    case a_dir
    from "4.prems" a_dir obtain res1 ev1 where
      sub: "fetchDirectoryContents n E tok ow rp (i_path it) (allFiles, ev) = Some (res1, ev1)"
      by (auto split: option.splits)
    from "4.IH"(2) [OF a_dir sub]
    have sub': "fetchDirectoryContents (Suc n) E tok ow rp (i_path it) (allFiles, ev) = Some (res1, ev1)" .
    show ?thesis
    proof (cases res1)
      case (Inl e)
      with "4.prems" a_dir sub have "x = (Inl e, ev1)" by simp
      with a_dir sub' Inl show ?thesis by (simp del: fetchDirectoryContents.simps)
    next
      case (Inr fs)
      with "4.prems" a_dir sub have "forItems n E tok ow rp items (fs, ev1) = Some x" by simp
      from "4.IH"(3) [OF a_dir sub refl Inr this]
      have "forItems (Suc n) E tok ow rp items (fs, ev1) = Some x" .
      with a_dir sub' Inr show ?thesis by (simp del: fetchDirectoryContents.simps)
    qed
  qed
qed


lemma forItems_prefix:
  "list_all (node_ok E tok ow rp) pre \<Longrightarrow> foldr max (map height pre) 0 \<le> n \<Longrightarrow>
   forItems n E tok ow rp (map root_item pre @ items) (acc, ev) =
   forItems n E tok ow rp items
     (acc @ concat (map flat pre), ev @ map Request (concat (map (walk tok ow rp) pre)))"
proof (induction pre arbitrary: acc ev)
  case Nil
  show ?case by simp
next
  case (Cons c pre)
  then have "forItems n E tok ow rp (root_item c # map root_item pre @ items) (acc, ev) =
      forItems n E tok ow rp (map root_item pre @ items)
        (acc @ flat c, ev @ map Request (walk tok ow rp c))"
    by (intro forItems_tree) simp_all
  with Cons show ?case by (simp del: forItems.simps)
qed

text \<open>
  A refused request ends the listing, however deep it lies: the lister returns the
  error, having sent the requests up to the refused one and none after it.
\<close>

lemma lister_refused:
  "refused E tok ow rp p fp r \<Longrightarrow> depth_until fp < fuel \<Longrightarrow>
   fetchDirectoryContents fuel E tok ow rp p (acc, ev) =
     Some (Inl (listing_error r), ev @ map Request (requests_until tok ow rp p fp))"
proof (induction fp arbitrary: p fuel acc ev)
  case Here
  then obtain n where "fuel = Suc n" by (cases fuel) auto
  with Here show ?case by simp
next
  case (Below pre d fp post)
  from Below.prems(2) obtain n where n: "fuel = Suc n"
    "foldr max (map height pre) 0 \<le> n" "depth_until fp < n"
    by (cases fuel) auto
  from Below.prems(1) obtain r' where r': "fetch E (api_request tok ow rp p) = Some r'"
    "ok r'" "body r' = JArray (map root_item pre @ d # post)"
    by (auto split: option.splits)
  from Below.prems(1) have pre: "list_all (node_ok E tok ow rp) pre"
    and d: "i_type d = js ''dir''" "i_type d \<noteq> js ''file''"
    and sub: "refused E tok ow rp (i_path d) fp r"
    by (auto simp: js_def)
  let ?acc = "acc @ concat (map flat pre)"
  let ?ev = "(ev @ [Request (api_request tok ow rp p)]) @
             map Request (concat (map (walk tok ow rp) pre))"
  have "fetchDirectoryContents n E tok ow rp (i_path d) (?acc, ?ev) =
      Some (Inl (listing_error r), ?ev @ map Request (requests_until tok ow rp (i_path d) fp))"
    using sub n(3) by (rule Below.IH)
  with d have "forItems n E tok ow rp (d # post) (?acc, ?ev) =
      Some (Inl (listing_error r), ?ev @ map Request (requests_until tok ow rp (i_path d) fp))"
    by (simp del: fetchDirectoryContents.simps)
  then have "forItems n E tok ow rp (map root_item pre @ d # post)
      (acc, ev @ [Request (api_request tok ow rp p)]) =
      Some (Inl (listing_error r), ?ev @ map Request (requests_until tok ow rp (i_path d) fp))"
    using forItems_prefix [OF pre n(2)] by (simp del: forItems.simps)
  with r' show ?case by (simp add: n(1) del: forItems.simps)
qed


lemma requests_until_nonempty: "requests_until tok ow rp p fp \<noteq> []"
  by (cases fp) simp_all

lemma refused_last:
  "refused E tok ow rp p fp r \<Longrightarrow>
   fetch E (last (requests_until tok ow rp p fp)) = Some r \<and> \<not> ok r"
  by (induction fp arbitrary: p) (auto simp: requests_until_nonempty)

section \<open>Archive builder: the loop over the files\<close>

lemma requests_of_append: "requests_of (xs @ ys) = requests_of xs @ requests_of ys"
  by (induction xs rule: requests_of.induct) auto

lemma saves_of_append: "saves_of (xs @ ys) = saves_of xs @ saves_of ys"
  by (induction xs rule: saves_of.induct) auto

lemma saves_of_requests: "saves_of (map Request rs) = []"
  by (induction rs) auto

lemma fetchFile_downloaded:
  "downloaded E tok ow rp f \<Longrightarrow>
   fetchFile E tok ow rp f = Inr (Some (the (decode E (the (payload E tok ow rp f)))))"
  by (auto simp: downloaded_def payload_def decode_def fetchFile_def
           split: option.splits if_splits body.splits)

lemma fetchFile_not_downloaded:
  "\<not> downloaded E tok ow rp f \<Longrightarrow> fetchFile E tok ow rp f \<noteq> Inr (Some b)"
  by (auto simp: downloaded_def payload_def decode_def fetchFile_def
           split: option.splits if_splits body.splits)

lemma update_fresh: "k \<notin> fst ` set al \<Longrightarrow> AList.update k v al = al @ [(k, v)]"
  by (induction al) auto

lemma zipLoop_append:
  "zipLoop E tok ow rp totalFiles (xs @ ys) st =
   zipLoop E tok ow rp totalFiles ys (zipLoop E tok ow rp totalFiles xs st)"
  by (induction xs arbitrary: st) (simp_all add: Let_def)

text \<open>The archive after the loop: the entries of the downloaded files, in order.\<close>

lemma zipLoop_zip:
  "zip (zipLoop E tok ow rp totalFiles files st) =
   fold (\<lambda>f z. AList.update (f_path f) (the (decode E (the (payload E tok ow rp f)))) z)
     (filter (downloaded E tok ow rp) files) (zip st)"
proof (induction files arbitrary: st)
  case Nil
  show ?case by simp
next
  case (Cons f files)
  show ?case
  proof (cases "downloaded E tok ow rp f")
    case True
    then show ?thesis by (simp add: Cons.IH Let_def fetchFile_downloaded)
  next
    case False
    then have "\<And>b. fetchFile E tok ow rp f \<noteq> Inr (Some b)"
      by (rule fetchFile_not_downloaded)
    with False show ?thesis
      by (simp add: Cons.IH Let_def split: sum.splits option.splits)
  qed
qed

lemma fold_update_distinct:
  "distinct (map k fs) \<Longrightarrow> (\<forall>f\<in>set fs. k f \<notin> fst ` set z) \<Longrightarrow>
   fold (\<lambda>f z. AList.update (k f) (v f) z) fs z = z @ map (\<lambda>f. (k f, v f)) fs"
proof (induction fs arbitrary: z)
  case Nil
  show ?case by simp
next
  case (Cons f fs)
  then have "fold (\<lambda>f z. AList.update (k f) (v f) z) fs (z @ [(k f, v f)]) =
             (z @ [(k f, v f)]) @ map (\<lambda>f. (k f, v f)) fs"
    by (intro Cons.IH) (auto simp: image_iff)
  with Cons.prems show ?case by (simp add: update_fresh)
qed

lemma zipLoop_successful:
  "successfulDownloads (zipLoop E tok ow rp totalFiles files st) =
   successfulDownloads st + length (filter (downloaded E tok ow rp) files)"
proof (induction files arbitrary: st)
  case Nil
  show ?case by simp
next
  case (Cons f files)
  show ?case
  proof (cases "downloaded E tok ow rp f")
    case True
    then show ?thesis by (simp add: Cons.IH Let_def fetchFile_downloaded)
  next
    case False
    then have "\<And>b. fetchFile E tok ow rp f \<noteq> Inr (Some b)"
      by (rule fetchFile_not_downloaded)
    with False show ?thesis
      by (simp add: Cons.IH Let_def split: sum.splits option.splits)
  qed
qed

lemma zipLoop_requests:
  "requests_of (events (zipLoop E tok ow rp totalFiles files st)) =
   requests_of (events st) @ map (\<lambda>f. api_request tok ow rp (f_path f)) files"
  by (induction files arbitrary: st)
     (auto simp: Let_def requests_of_append split: sum.splits option.splits)

lemma zipLoop_saves:
  "saves_of (events (zipLoop E tok ow rp totalFiles files st)) = saves_of (events st)"
  by (induction files arbitrary: st)
     (auto simp: Let_def saves_of_append split: sum.splits option.splits)

section \<open>Directory lister: the claims\<close>

text \<open>
  C2: when the remote serves a tree under the path, the lister, given fuel beyond the
  depth of the tree, returns the File Descriptors of the regular files of the tree,
  each with the path, the sha, the name and the size of the file's entry, depth first
  and in listing order, with one request for the path and one for every subdirectory;
  entries that are neither files nor directories add nothing to the result and raise
  no error.
\<close>

theorem lister_lists_tree:
  assumes "serves E tok ow rp p cs" and "foldr max (map height cs) 0 < fuel"
  shows "fetchDirectoryContents fuel E tok ow rp p ([], ev) =
           Some (Inr (concat (map flat cs)),
                 ev @ Request (api_request tok ow rp p) #
                      map Request (concat (map (walk tok ow rp) cs)))"
  using lister_refines [OF assms, of "[]" ev] by simp

theorem lister_lists_tree_witness:
  "serves env0 tok0 (js ''acme'') (js ''widgets'') (js ''src/utils'') tree0 \<and>
   fetchDirectoryContents (Suc (Suc 0)) env0 tok0 (js ''acme'') (js ''widgets'') (js ''src/utils'') ([], []) =
     Some (Inr [\<lparr>f_path = js ''src/utils/a.txt'', f_sha = js ''4f'', f_name = js ''a.txt'',
                  f_size = 2\<rparr>,
                \<lparr>f_path = js ''src/utils/sub/b.txt'', f_sha = js ''6f'', f_name = js ''b.txt'',
                  f_size = 5\<rparr>,
                \<lparr>f_path = js ''src/utils/empty'', f_sha = js ''8f'', f_name = js ''empty'',
                  f_size = 0\<rparr>,
                \<lparr>f_path = js ''src/utils/gone.txt'', f_sha = js ''9f'', f_name = js ''gone.txt'',
                  f_size = 7\<rparr>],
           [Request (api_request tok0 (js ''acme'') (js ''widgets'') (js ''src/utils'')),
            Request (api_request tok0 (js ''acme'') (js ''widgets'') (js ''src/utils/sub''))])"
proof -
  have h1: "serves env0 tok0 (js ''acme'') (js ''widgets'') (js ''src/utils'') tree0"
    by (simp add: sample_eval)
  have h2: "foldr max (map height tree0) 0 < Suc (Suc 0)"
    by (simp add: tree0_def)
  have e1: "concat (map flat tree0) =
      [\<lparr>f_path = js ''src/utils/a.txt'', f_sha = js ''4f'', f_name = js ''a.txt'', f_size = 2\<rparr>,
       \<lparr>f_path = js ''src/utils/sub/b.txt'', f_sha = js ''6f'', f_name = js ''b.txt'',
         f_size = 5\<rparr>,
       \<lparr>f_path = js ''src/utils/empty'', f_sha = js ''8f'', f_name = js ''empty'', f_size = 0\<rparr>,
       \<lparr>f_path = js ''src/utils/gone.txt'', f_sha = js ''9f'', f_name = js ''gone.txt'',
         f_size = 7\<rparr>]"
    by (simp add: tree0_def a_txt_def b_txt_def empty_file_def gone_txt_def entry_def)
  have e2: "concat (map (walk tok0 (js ''acme'') (js ''widgets'')) tree0) =
            [api_request tok0 (js ''acme'') (js ''widgets'') (js ''src/utils/sub'')]"
    by (simp add: tree0_def sub_dir_def entry_def)
  show ?thesis
    using lister_lists_tree [OF h1 h2, of "[]"] h1 e1 e2 by simp
qed

text \<open>
  C4: a listing request answered with a response that is not \<open>ok\<close> makes the lister
  fail with \<open>AuthError\<close> for status 401, \<open>NotFound\<close> for 404 and \<open>RemoteApiError\<close> with
  the status otherwise. Wherever the refused request lies, at the path itself or in a
  sub-directory below it, the entries listed before it having listed successfully, the
  lister does return, for every fuel above the depth reached: it returns the error and
  no file list, the refused request being the last one sent, and \<open>downloadContent\<close>
  only reports the failure. When it is the request for the path itself, the lister
  fails at once, whatever the fuel. Read off a run, the refused request is the last
  thing the listing does, every request before it having listed successfully, and more
  fuel does not change the outcome.
\<close>

theorem lister_failure_aborts:
  "(refused E tok ow rp p fp r \<and> depth_until fp < fuel \<longrightarrow>
      fetchDirectoryContents fuel E tok ow rp p (acc, ev) =
        Some (Inl (listing_error r), ev @ map Request (requests_until tok ow rp p fp)) \<and>
      fetch E (last (requests_until tok ow rp p fp)) = Some r \<and> \<not> ok r \<and>
      (trim input \<noteq> [] \<and> parseGitHubUrl (trim input) = Inr t \<and>
       ow = owner t \<and> rp = repo t \<and> p = path t \<longrightarrow>
       downloadContent fuel E tok input =
         Some ([Log ParsingUrl Info, Log FetchingContents Info, Disabled True] @
               map Request (requests_until tok ow rp p fp) @
               [ConsoleError (listing_error r),
                Log (DownloadFailed (listing_error r)) Err, Disabled False]))) \<and>
   (fetch E q = Some r \<and> \<not> ok r \<longrightarrow>
      listing_error r =
           (if status r = 401 then AuthError
            else if status r = 404 then NotFound
            else RemoteApiError (status r) (statusText r)) \<and>
         (q = api_request tok ow rp p \<longrightarrow>
            fetchDirectoryContents (Suc n) E tok ow rp p (acc, ev) =
              Some (Inl (listing_error r), ev @ [Request q])) \<and>
         (fetchDirectoryContents fuel E tok ow rp p (acc, ev) = Some (res, ev') \<and>
          Request q \<in> set (drop (length ev) ev') \<longrightarrow>
            res = Inl (listing_error r) \<and>
            (\<exists>rs. ev' = ev @ map Request rs @ [Request q] \<and> list_all (listing_ok E) rs) \<and>
            fetchDirectoryContents (Suc fuel) E tok ow rp p (acc, ev) = Some (res, ev') \<and>
            (trim input \<noteq> [] \<and> parseGitHubUrl (trim input) = Inr t \<and>
             ow = owner t \<and> rp = repo t \<and> p = path t \<and> acc = [] \<and>
             ev = [Log ParsingUrl Info, Log FetchingContents Info, Disabled True] \<longrightarrow>
             downloadContent fuel E tok input =
               Some (ev' @ [ConsoleError (listing_error r),
                            Log (DownloadFailed (listing_error r)) Err, Disabled False]))))"
proof (intro conjI impI)
  assume a: "refused E tok ow rp p fp r \<and> depth_until fp < fuel"
  then show run: "fetchDirectoryContents fuel E tok ow rp p (acc, ev) =
        Some (Inl (listing_error r), ev @ map Request (requests_until tok ow rp p fp))"
    by (intro lister_refused) simp_all
  from a show "fetch E (last (requests_until tok ow rp p fp)) = Some r" "\<not> ok r"
    using refused_last [of E tok ow rp p fp r] by simp_all
  assume i: "trim input \<noteq> [] \<and> parseGitHubUrl (trim input) = Inr t \<and>
       ow = owner t \<and> rp = repo t \<and> p = path t"
  let ?ev = "[Log ParsingUrl Info, Log FetchingContents Info, Disabled True]"
  from a have "fetchDirectoryContents fuel E tok ow rp p ([], ?ev) =
        Some (Inl (listing_error r), ?ev @ map Request (requests_until tok ow rp p fp))"
    by (intro lister_refused) simp_all
  with i show "downloadContent fuel E tok input =
         Some ([Log ParsingUrl Info, Log FetchingContents Info, Disabled True] @
               map Request (requests_until tok ow rp p fp) @
               [ConsoleError (listing_error r),
                Log (DownloadFailed (listing_error r)) Err, Disabled False])"
    by (simp add: downloadContent_def failed_def del: fetchDirectoryContents.simps)
next
  show "listing_error r =
           (if status r = 401 then AuthError
            else if status r = 404 then NotFound
            else RemoteApiError (status r) (statusText r))"
    by (simp add: listing_error_def)
next
  assume "fetch E q = Some r \<and> \<not> ok r" and "q = api_request tok ow rp p"
  then show "fetchDirectoryContents (Suc n) E tok ow rp p (acc, ev) =
              Some (Inl (listing_error r), ev @ [Request q])"
    by simp
next
  assume f: "fetch E q = Some r \<and> \<not> ok r"
  assume a: "fetchDirectoryContents fuel E tok ow rp p (acc, ev) = Some (res, ev') \<and>
          Request q \<in> set (drop (length ev) ev')"
  then have run: "fetchDirectoryContents fuel E tok ow rp p (acc, ev) = Some (res, ev')"
    and inq: "Request q \<in> set (drop (length ev) ev')" by simp_all
  from lister_trace(1) [OF run] obtain rs q' where
    t: "ev' = ev @ map Request (rs @ [q'])" "list_all (listing_ok E) rs"
    "case res of Inr fs \<Rightarrow> listing_ok E q'
     | Inl e \<Rightarrow> \<not> listing_ok E q' \<and>
                 (\<forall>r. fetch E q' = Some r \<longrightarrow> \<not> ok r \<longrightarrow> e = listing_error r)"
    by auto
  have bad: "\<not> listing_ok E q" using f by (simp add: listing_ok_def)
  from inq t(1) have "q \<in> set (rs @ [q'])" by auto
  with bad t(2) have q: "q' = q" by (auto simp: list_all_iff)
  with bad t(3) f show res: "res = Inl (listing_error r)"
    by (cases res) auto
  show "\<exists>rs. ev' = ev @ map Request rs @ [Request q] \<and> list_all (listing_ok E) rs"
    using t(1,2) q by auto
  show "fetchDirectoryContents (Suc fuel) E tok ow rp p (acc, ev) = Some (res, ev')"
    using run by (rule lister_fuel_mono(1))
  assume "trim input \<noteq> [] \<and> parseGitHubUrl (trim input) = Inr t \<and>
             ow = owner t \<and> rp = repo t \<and> p = path t \<and> acc = [] \<and>
             ev = [Log ParsingUrl Info, Log FetchingContents Info, Disabled True]"
  with run res show "downloadContent fuel E tok input =
               Some (ev' @ [ConsoleError (listing_error r),
                            Log (DownloadFailed (listing_error r)) Err, Disabled False])"
    by (simp add: downloadContent_def failed_def)
qed

theorem lister_failure_aborts_witness:
  "fetchDirectoryContents (Suc 0) env0 (js ''expired'') (js ''acme'') (js ''widgets'') (js ''src'')
      ([], []) =
     Some (Inl AuthError,
           [Request (api_request (js ''expired'') (js ''acme'') (js ''widgets'') (js ''src''))]) \<and>
   refused env0 tok0 (js ''acme'') (js ''widgets'') (js ''src'')
     (Below [RFile x_txt] docs_dir Here [utils_dir])
     \<lparr>status = 404, statusText = js ''Not Found'', body = NotJson\<rparr> \<and>
   fetchDirectoryContents (Suc (Suc 0)) env0 tok0 (js ''acme'') (js ''widgets'') (js ''src'')
      ([], [Log ParsingUrl Info, Log FetchingContents Info, Disabled True]) =
     Some (Inl NotFound,
           [Log ParsingUrl Info, Log FetchingContents Info, Disabled True,
            Request (api_request tok0 (js ''acme'') (js ''widgets'') (js ''src'')),
            Request (api_request tok0 (js ''acme'') (js ''widgets'') (js ''src/docs''))]) \<and>
   fetchDirectoryContents (Suc (Suc (Suc 0))) env0 tok0 (js ''acme'') (js ''widgets'') (js ''src'')
      ([], [Log ParsingUrl Info, Log FetchingContents Info, Disabled True]) =
     Some (Inl NotFound,
           [Log ParsingUrl Info, Log FetchingContents Info, Disabled True,
            Request (api_request tok0 (js ''acme'') (js ''widgets'') (js ''src'')),
            Request (api_request tok0 (js ''acme'') (js ''widgets'') (js ''src/docs''))]) \<and>
   downloadContent (Suc (Suc 0)) env0 tok0 (js ''https://github.com/acme/widgets/tree/main/src'') =
     Some [Log ParsingUrl Info, Log FetchingContents Info, Disabled True,
           Request (api_request tok0 (js ''acme'') (js ''widgets'') (js ''src'')),
           Request (api_request tok0 (js ''acme'') (js ''widgets'') (js ''src/docs'')),
           ConsoleError NotFound, Log (DownloadFailed NotFound) Err, Disabled False]"
proof -
  let ?ev = "[Log ParsingUrl Info, Log FetchingContents Info, Disabled True]"
  let ?qs = "api_request tok0 (js ''acme'') (js ''widgets'') (js ''src'')"
  let ?q = "api_request tok0 (js ''acme'') (js ''widgets'') (js ''src/docs'')"
  let ?r = "\<lparr>status = 404, statusText = js ''Not Found'', body = NotJson\<rparr>"
  let ?qe = "api_request (js ''expired'') (js ''acme'') (js ''widgets'') (js ''src'')"
  let ?re = "\<lparr>status = 401, statusText = js ''Unauthorized'', body = NotJson\<rparr>"
  let ?t = "\<lparr>owner = js ''acme'', repo = js ''widgets'', path = js ''src'', isRepo = False\<rparr>"
  let ?fp = "Below [RFile x_txt] docs_dir Here [utils_dir]"
  let ?in = "js ''https://github.com/acme/widgets/tree/main/src''"
  have g: "fetch env0 ?qe = Some ?re \<and> \<not> ok ?re" by (simp add: sample_eval)
  have k1: "refused env0 tok0 (js ''acme'') (js ''widgets'') (js ''src'') ?fp ?r"
    by (simp add: sample_eval)
  have k2: "depth_until ?fp < Suc (Suc 0)" by simp
  have k3: "requests_until tok0 (js ''acme'') (js ''widgets'') (js ''src'') ?fp = [?qs, ?q]"
    by (simp add: docs_dir_def entry_def)
  have k4: "listing_error ?r = NotFound" "listing_error ?re = AuthError"
    by (simp_all add: listing_error_def)
  have h5: "trim ?in \<noteq> [] \<and> parseGitHubUrl (trim ?in) = Inr ?t \<and>
      js ''acme'' = owner ?t \<and> js ''widgets'' = repo ?t \<and> js ''src'' = path ?t"
    by (simp add: parse_eval)
  note c1 = lister_failure_aborts [where E = env0 and q = ?qe and r = ?re
      and tok = "js ''expired''" and ow = "js ''acme''"
      and rp = "js ''widgets''" and p = "js ''src''" and n = 0 and acc = "[]" and ev = "[]",
      THEN conjunct2, THEN mp, OF g]
  have a: "fetchDirectoryContents (Suc 0) env0 (js ''expired'') (js ''acme'') (js ''widgets'')
      (js ''src'') ([], []) = Some (Inl AuthError, [Request ?qe])"
    using c1 [THEN conjunct2, THEN conjunct1] k4(2)
    by (simp del: fetchDirectoryContents.simps)
  note c2 = lister_failure_aborts [where E = env0 and r = ?r
      and tok = tok0 and ow = "js ''acme''" and rp = "js ''widgets''" and p = "js ''src''"
      and fp = ?fp and acc = "[]" and ev = ?ev and fuel = "Suc (Suc 0)"
      and input = ?in and t = ?t,
      THEN conjunct1, THEN mp, OF conjI [OF k1 k2]]
  have b: "fetchDirectoryContents (Suc (Suc 0)) env0 tok0 (js ''acme'') (js ''widgets'')
      (js ''src'') ([], ?ev) = Some (Inl NotFound, ?ev @ [Request ?qs, Request ?q])"
    using c2 [THEN conjunct1] unfolding k3 k4 by (simp del: fetchDirectoryContents.simps)
  have d: "downloadContent (Suc (Suc 0)) env0 tok0 ?in =
      Some (?ev @ [Request ?qs, Request ?q] @
            [ConsoleError NotFound, Log (DownloadFailed NotFound) Err, Disabled False])"
    using c2 [THEN conjunct2, THEN conjunct2, THEN conjunct2, THEN mp, OF h5]
    unfolding k3 k4 by simp
  have h2: "Request ?q \<in> set (drop (length ?ev) (?ev @ [Request ?qs, Request ?q]))"
    by simp
  have h3: "fetch env0 ?q = Some ?r \<and> \<not> ok ?r" by (simp add: sample_eval)
  note c3 = lister_failure_aborts [where E = env0 and q = ?q and r = ?r
      and tok = tok0 and ow = "js ''acme''" and rp = "js ''widgets''" and p = "js ''src''"
      and acc = "[]" and ev = ?ev and fuel = "Suc (Suc 0)" and res = "Inl NotFound"
      and ev' = "?ev @ [Request ?qs, Request ?q]",
      THEN conjunct2, THEN mp, OF h3, THEN conjunct2, THEN conjunct2, THEN mp,
      OF conjI [OF b h2]]
  have e: "fetchDirectoryContents (Suc (Suc (Suc 0))) env0 tok0 (js ''acme'') (js ''widgets'')
      (js ''src'') ([], ?ev) = Some (Inl NotFound, ?ev @ [Request ?qs, Request ?q])"
    using c3 [THEN conjunct2, THEN conjunct2, THEN conjunct1] .
  from a k1 b e d show ?thesis by (simp del: fetchDirectoryContents.simps refused.simps)
qed

text \<open>
  C9: when the contents endpoint answers the listing request with a single-file
  object, the loop over the response throws: the lister returns no file list, and
  the operation ends with that failure after the one request, nothing being
  downloaded or saved.
\<close>

theorem single_file_listing_fails:
  assumes "trim input \<noteq> []" and "parseGitHubUrl (trim input) = Inr t"
    and "fetch E (api_request tok (owner t) (repo t) (path t)) = Some r"
    and "ok r" and "body r = JObject obj"
  shows "fetchDirectoryContents (Suc n) E tok (owner t) (repo t) (path t) (acc, ev) =
           Some (Inl NotIterable, ev @ [Request (api_request tok (owner t) (repo t) (path t))]) \<and>
         downloadContent (Suc n) E tok input =
           Some [Log ParsingUrl Info, Log FetchingContents Info, Disabled True,
                 Request (api_request tok (owner t) (repo t) (path t)),
                 ConsoleError NotIterable, Log (DownloadFailed NotIterable) Err, Disabled False]"
  using assms by (simp add: downloadContent_def failed_def)

theorem single_file_listing_fails_witness:
  "parseGitHubUrl (trim (js ''https://github.com/acme/widgets/tree/main/src/utils/a.txt'')) =
     Inr \<lparr>owner = js ''acme'', repo = js ''widgets'', path = js ''src/utils/a.txt'', isRepo = False\<rparr> \<and>
   downloadContent (Suc 0) env0 tok0 (js ''https://github.com/acme/widgets/tree/main/src/utils/a.txt'') =
     Some [Log ParsingUrl Info, Log FetchingContents Info, Disabled True,
           Request (api_request tok0 (js ''acme'') (js ''widgets'') (js ''src/utils/a.txt'')),
           ConsoleError NotIterable, Log (DownloadFailed NotIterable) Err, Disabled False]"
proof -
  let ?i = "js ''https://github.com/acme/widgets/tree/main/src/utils/a.txt''"
  let ?t = "\<lparr>owner = js ''acme'', repo = js ''widgets'', path = js ''src/utils/a.txt'', isRepo = False\<rparr>"
  let ?r = "\<lparr>status = 200, statusText = js ''OK'',
             body = JObject (a_txt\<lparr>i_content := Some (js ''aGk='' @ [newline])\<rparr>)\<rparr>"
  have h1: "trim ?i \<noteq> []" by (simp add: parse_eval)
  have h2: "parseGitHubUrl (trim ?i) = Inr ?t" by (simp add: parse_eval)
  have h3: "fetch env0 (api_request tok0 (owner ?t) (repo ?t) (path ?t)) = Some ?r" by (simp add: sample_eval)
  have h4: "ok ?r" by (simp add: ok_def)
  have h5: "body ?r = JObject (a_txt\<lparr>i_content := Some (js ''aGk='' @ [newline])\<rparr>)" by simp
  show ?thesis
    using single_file_listing_fails [OF h1 h2 h3 h4 h5, of 0] h2 by simp
qed

section \<open>Archive builder: the claims\<close>

lemma keys_fold_update:
  "fst ` set (fold (\<lambda>f z. AList.update (k f) (v f) z) fs z) = fst ` set z \<union> k ` set fs"
  by (induction fs arbitrary: z) (auto simp: dom_update)

lemma zipLoop_keys:
  "fst ` set (zip (zipLoop E tok ow rp totalFiles files st)) =
   fst ` set (zip st) \<union> f_path ` {g \<in> set files. downloaded E tok ow rp g}"
  unfolding zipLoop_zip keys_fold_update by auto

lemma create_saves:
  "saves_of (snd (createAndDownloadZip E tok files folderName ow rp ev0)) =
   saves_of ev0 @
   (case fst (createAndDownloadZip E tok files folderName ow rp ev0) of
      Inl e \<Rightarrow> []
    | Inr u \<Rightarrow>
        [(folderName @ js ''.zip'',
          zip (zipLoop E tok ow rp (length files) files
                 \<lparr>zip = [], downloadedCount = 0, successfulDownloads = 0,
                    events = (if jszip_defined E then ev0 else ev0 @ [LoadScript])\<rparr>))])"
  by (simp add: createAndDownloadZip_def Let_def saves_of_append zipLoop_saves)

text \<open>
  C1, as the code has it: after a successful run the archive saved holds one entry for
  every file of the listing whose request was answered \<open>ok\<close> with a single-file object
  whose content is not empty and decodes, in listing order and for a listing of
  distinct paths; the entry is keyed by the file's path and holds the base64 decoding
  of the content with its newline characters stripped.
\<close>

theorem archive_entries:
  assumes "createAndDownloadZip E tok files folderName ow rp ev0 = (Inr u, ev)"
    and "distinct (map f_path files)"
  shows "saves_of ev = saves_of ev0 @
           [(folderName @ js ''.zip'',
             map (\<lambda>f. (f_path f, the (decode E (the (payload E tok ow rp f)))))
               (filter (downloaded E tok ow rp) files))]"
proof -
  have d: "distinct (map f_path (filter (downloaded E tok ow rp) files))"
    using assms(2) by (simp add: distinct_map_filter)
  have "zip (zipLoop E tok ow rp (length files) files
               \<lparr>zip = [], downloadedCount = 0, successfulDownloads = 0,
                  events = (if jszip_defined E then ev0 else ev0 @ [LoadScript])\<rparr>) =
        map (\<lambda>f. (f_path f, the (decode E (the (payload E tok ow rp f)))))
          (filter (downloaded E tok ow rp) files)"
    unfolding zipLoop_zip using fold_update_distinct [OF d, of "[]"] by simp
  with create_saves [of E tok files folderName ow rp ev0] assms(1) show ?thesis by simp
qed

theorem archive_entries_witness:
  "createAndDownloadZip env0 tok0 (map descriptor_of [a_txt, b_txt, gone_txt])
      (js ''widgets-utils'') (js ''acme'') (js ''widgets'') [] =
     (Inr (),
      [LoadScript,
       Log (Downloading (js ''a.txt'') 1 3) Info,
       Request (api_request tok0 (js ''acme'') (js ''widgets'') (js ''src/utils/a.txt'')),
       Log (Downloading (js ''b.txt'') 2 3) Info,
       Request (api_request tok0 (js ''acme'') (js ''widgets'') (js ''src/utils/sub/b.txt'')),
       Log (Downloading (js ''gone.txt'') 3 3) Info,
       Request (api_request tok0 (js ''acme'') (js ''widgets'') (js ''src/utils/gone.txt'')),
       WarnFailed (js ''gone.txt'') (FetchFileFailed (js ''gone.txt'') 404),
       Log (GeneratingZip 2) Info,
       Save (js ''widgets-utils.zip'')
         [(js ''src/utils/a.txt'', [0x68, 0x69]),
          (js ''src/utils/sub/b.txt'', [0x68, 0x65, 0x6C, 0x6C, 0x6F])],
       Log (ZipCreated 222) Success]) \<and>
   saves_of (snd (createAndDownloadZip env0 tok0 (map descriptor_of [a_txt, b_txt, gone_txt])
      (js ''widgets-utils'') (js ''acme'') (js ''widgets'') [])) =
     [(js ''widgets-utils.zip'',
       map (\<lambda>f. (f_path f, the (decode env0 (the (payload env0 tok0 (js ''acme'') (js ''widgets'') f)))))
         (filter (downloaded env0 tok0 (js ''acme'') (js ''widgets''))
            (map descriptor_of [a_txt, b_txt, gone_txt])))]"
proof -
  let ?fs = "map descriptor_of [a_txt, b_txt, gone_txt]"
  let ?ev = "[LoadScript,
       Log (Downloading (js ''a.txt'') 1 3) Info,
       Request (api_request tok0 (js ''acme'') (js ''widgets'') (js ''src/utils/a.txt'')),
       Log (Downloading (js ''b.txt'') 2 3) Info,
       Request (api_request tok0 (js ''acme'') (js ''widgets'') (js ''src/utils/sub/b.txt'')),
       Log (Downloading (js ''gone.txt'') 3 3) Info,
       Request (api_request tok0 (js ''acme'') (js ''widgets'') (js ''src/utils/gone.txt'')),
       WarnFailed (js ''gone.txt'') (FetchFileFailed (js ''gone.txt'') 404),
       Log (GeneratingZip 2) Info,
       Save (js ''widgets-utils.zip'')
         [(js ''src/utils/a.txt'', [0x68, 0x69]),
          (js ''src/utils/sub/b.txt'', [0x68, 0x65, 0x6C, 0x6C, 0x6F])],
       Log (ZipCreated 222) Success]"
  have h1: "createAndDownloadZip env0 tok0 ?fs (js ''widgets-utils'') (js ''acme'') (js ''widgets'') [] =
     (Inr (), ?ev)"
    by (simp add: sample_eval)
  have h2: "distinct (map f_path ?fs)" by (simp add: sample_eval)
  show ?thesis
    using archive_entries [OF h1 h2] h1 by simp
qed

text \<open>
  The claim C1 as worded fails for an empty file: the request for it is answered \<open>ok\<close>
  with the empty payload, whose decoding is the empty byte sequence, the run succeeds,
  and the archive saved has no entry for the file.
\<close>

theorem archive_omits_empty_file:
  "fst (createAndDownloadZip env0 tok0 (map descriptor_of [a_txt, empty_file])
          (js ''widgets-utils'') (js ''acme'') (js ''widgets'') []) = Inr () \<and>
   saves_of (snd (createAndDownloadZip env0 tok0 (map descriptor_of [a_txt, empty_file])
          (js ''widgets-utils'') (js ''acme'') (js ''widgets'') [])) =
     [(js ''widgets-utils.zip'', [(js ''src/utils/a.txt'', [0x68, 0x69])])] \<and>
   fetch env0 (api_request tok0 (js ''acme'') (js ''widgets'') (js ''src/utils/empty'')) =
     Some \<lparr>status = 200, statusText = js ''OK'',
           body = JObject (empty_file\<lparr>i_content := Some []\<rparr>)\<rparr> \<and>
   payload env0 tok0 (js ''acme'') (js ''widgets'') (descriptor_of empty_file) = Some [] \<and>
   decode env0 [] = Some []"
  by (simp add: sample_eval)

text \<open>
  C3: a file whose fetch throws is logged with a warning and skipped; the loop goes
  on with the files after it, with the archive and the counters as they were, and the
  file's path is not an entry of the archive unless another, downloaded file has that
  path. When no file of the listing is downloaded, the operation fails with
  \<open>NoFilesDownloaded\<close> straight after the loop: no archive is generated or saved.
  Failures or not, the loop requests every file of the listing, in order.
\<close>

theorem fetch_failures_are_skipped:
  "(fetchFile E tok ow rp f = Inl e \<longrightarrow>
      zipLoop E tok ow rp n (xs @ f # ys) st =
        zipLoop E tok ow rp n ys
          ((zipLoop E tok ow rp n xs st)
             \<lparr>events := events (zipLoop E tok ow rp n xs st) @
                [Log (Downloading (f_name f) (downloadedCount (zipLoop E tok ow rp n xs st) + 1) n) Info,
                 Request (api_request tok ow rp (f_path f)),
                 WarnFailed (f_name f) e]\<rparr>) \<and>
      (f_path f \<notin> fst ` set (zip st) \<and>
       (\<forall>g\<in>set (xs @ ys). downloaded E tok ow rp g \<longrightarrow> f_path g \<noteq> f_path f) \<longrightarrow>
       f_path f \<notin> fst ` set (zip (zipLoop E tok ow rp n (xs @ f # ys) st)))) \<and>
   ((jszip_defined E \<or> jszip_loads E) \<and> list_all (\<lambda>g. \<not> downloaded E tok ow rp g) files \<longrightarrow>
      createAndDownloadZip E tok files folderName ow rp ev0 =
        (Inl NoFilesDownloaded,
         events (zipLoop E tok ow rp (length files) files
                   \<lparr>zip = [], downloadedCount = 0, successfulDownloads = 0,
                      events = (if jszip_defined E then ev0 else ev0 @ [LoadScript])\<rparr>)) \<and>
      saves_of (snd (createAndDownloadZip E tok files folderName ow rp ev0)) = saves_of ev0) \<and>
   requests_of (events (zipLoop E tok ow rp n files st)) =
     requests_of (events st) @ map (\<lambda>g. api_request tok ow rp (f_path g)) files"
proof (intro conjI impI)
  show "requests_of (events (zipLoop E tok ow rp n files st)) =
     requests_of (events st) @ map (\<lambda>g. api_request tok ow rp (f_path g)) files"
    by (rule zipLoop_requests)
next
  assume f: "fetchFile E tok ow rp f = Inl e"
  then show "zipLoop E tok ow rp n (xs @ f # ys) st =
        zipLoop E tok ow rp n ys
          ((zipLoop E tok ow rp n xs st)
             \<lparr>events := events (zipLoop E tok ow rp n xs st) @
                [Log (Downloading (f_name f) (downloadedCount (zipLoop E tok ow rp n xs st) + 1) n) Info,
                 Request (api_request tok ow rp (f_path f)),
                 WarnFailed (f_name f) e]\<rparr>)"
    by (simp add: zipLoop_append Let_def)
  assume a: "f_path f \<notin> fst ` set (zip st) \<and>
       (\<forall>g\<in>set (xs @ ys). downloaded E tok ow rp g \<longrightarrow> f_path g \<noteq> f_path f)"
  have "\<not> downloaded E tok ow rp f"
    using f fetchFile_downloaded [of E tok ow rp f] by auto
  with a show "f_path f \<notin> fst ` set (zip (zipLoop E tok ow rp n (xs @ f # ys) st))"
    unfolding zipLoop_keys by auto
next
  assume a: "(jszip_defined E \<or> jszip_loads E) \<and> list_all (\<lambda>g. \<not> downloaded E tok ow rp g) files"
  then have "filter (downloaded E tok ow rp) files = []"
    by (simp add: list_all_iff filter_empty_conv)
  then have z: "successfulDownloads (zipLoop E tok ow rp (length files) files
                   \<lparr>zip = [], downloadedCount = 0, successfulDownloads = 0,
                      events = (if jszip_defined E then ev0 else ev0 @ [LoadScript])\<rparr>) = 0"
    by (simp add: zipLoop_successful)
  with a show c: "createAndDownloadZip E tok files folderName ow rp ev0 =
        (Inl NoFilesDownloaded,
         events (zipLoop E tok ow rp (length files) files
                   \<lparr>zip = [], downloadedCount = 0, successfulDownloads = 0,
                      events = (if jszip_defined E then ev0 else ev0 @ [LoadScript])\<rparr>))"
    by (auto simp: createAndDownloadZip_def Let_def)
  show "saves_of (snd (createAndDownloadZip E tok files folderName ow rp ev0)) = saves_of ev0"
    by (simp add: c zipLoop_saves saves_of_append)
qed

theorem fetch_failures_are_skipped_witness:
  "fetchFile env0 tok0 (js ''acme'') (js ''widgets'') (descriptor_of gone_txt) =
     Inl (FetchFileFailed (js ''gone.txt'') 404) \<and>
   zipLoop env0 tok0 (js ''acme'') (js ''widgets'') 2 (map descriptor_of [gone_txt, a_txt])
       \<lparr>zip = [], downloadedCount = 0, successfulDownloads = 0, events = []\<rparr> =
     \<lparr>zip = [(js ''src/utils/a.txt'', [0x68, 0x69])], downloadedCount = 1,
      successfulDownloads = 1,
      events =
        [Log (Downloading (js ''gone.txt'') 1 2) Info,
         Request (api_request tok0 (js ''acme'') (js ''widgets'') (js ''src/utils/gone.txt'')),
         WarnFailed (js ''gone.txt'') (FetchFileFailed (js ''gone.txt'') 404),
         Log (Downloading (js ''a.txt'') 1 2) Info,
         Request (api_request tok0 (js ''acme'') (js ''widgets'') (js ''src/utils/a.txt''))]\<rparr> \<and>
   createAndDownloadZip env0 tok0 (map descriptor_of [gone_txt, empty_file])
       (js ''widgets-utils'') (js ''acme'') (js ''widgets'') [] =
     (Inl NoFilesDownloaded,
      [LoadScript,
       Log (Downloading (js ''gone.txt'') 1 2) Info,
       Request (api_request tok0 (js ''acme'') (js ''widgets'') (js ''src/utils/gone.txt'')),
       WarnFailed (js ''gone.txt'') (FetchFileFailed (js ''gone.txt'') 404),
       Log (Downloading (js ''empty'') 1 2) Info,
       Request (api_request tok0 (js ''acme'') (js ''widgets'') (js ''src/utils/empty'')),
       WarnNoContent (js ''empty'')])"
proof -
  let ?st = "\<lparr>zip = [], downloadedCount = 0, successfulDownloads = 0, events = []\<rparr>"
  have h1: "fetchFile env0 tok0 (js ''acme'') (js ''widgets'') (descriptor_of gone_txt) =
     Inl (FetchFileFailed (js ''gone.txt'') 404)" by (simp add: sample_eval)
  have h2: "(jszip_defined env0 \<or> jszip_loads env0) \<and>
     list_all (\<lambda>g. \<not> downloaded env0 tok0 (js ''acme'') (js ''widgets'') g)
       (map descriptor_of [gone_txt, empty_file])" by (simp add: sample_eval)
  have e1: "zipLoop env0 tok0 (js ''acme'') (js ''widgets'') 2 (map descriptor_of [gone_txt, a_txt]) ?st =
     \<lparr>zip = [(js ''src/utils/a.txt'', [0x68, 0x69])], downloadedCount = 1,
      successfulDownloads = 1,
      events =
        [Log (Downloading (js ''gone.txt'') 1 2) Info,
         Request (api_request tok0 (js ''acme'') (js ''widgets'') (js ''src/utils/gone.txt'')),
         WarnFailed (js ''gone.txt'') (FetchFileFailed (js ''gone.txt'') 404),
         Log (Downloading (js ''a.txt'') 1 2) Info,
         Request (api_request tok0 (js ''acme'') (js ''widgets'') (js ''src/utils/a.txt''))]\<rparr>"
    by (simp add: sample_eval)
  have e2: "events (zipLoop env0 tok0 (js ''acme'') (js ''widgets'') 2
                (map descriptor_of [gone_txt, empty_file])
                \<lparr>zip = [], downloadedCount = 0, successfulDownloads = 0,
                   events = [LoadScript]\<rparr>) =
      [LoadScript,
       Log (Downloading (js ''gone.txt'') 1 2) Info,
       Request (api_request tok0 (js ''acme'') (js ''widgets'') (js ''src/utils/gone.txt'')),
       WarnFailed (js ''gone.txt'') (FetchFileFailed (js ''gone.txt'') 404),
       Log (Downloading (js ''empty'') 1 2) Info,
       Request (api_request tok0 (js ''acme'') (js ''widgets'') (js ''src/utils/empty'')),
       WarnNoContent (js ''empty'')]"
    by (simp add: sample_eval)
  have d: "jszip_defined env0 = False" by (simp add: env0_def)
  note c = fetch_failures_are_skipped [of env0 tok0 "js ''acme''" "js ''widgets''"
        "descriptor_of gone_txt" "FetchFileFailed (js ''gone.txt'') 404" 2 "[]"
        "[descriptor_of a_txt]" ?st "map descriptor_of [gone_txt, empty_file]"
        "js ''widgets-utils''" "[]"]
  from c h2 have "createAndDownloadZip env0 tok0 (map descriptor_of [gone_txt, empty_file])
       (js ''widgets-utils'') (js ''acme'') (js ''widgets'') [] =
     (Inl NoFilesDownloaded,
         events (zipLoop env0 tok0 (js ''acme'') (js ''widgets'')
                   (length (map descriptor_of [gone_txt, empty_file]))
                   (map descriptor_of [gone_txt, empty_file])
                   \<lparr>zip = [], downloadedCount = 0, successfulDownloads = 0,
                      events = (if jszip_defined env0 then [] else [] @ [LoadScript])\<rparr>))"
    by blast
  also have "length (map descriptor_of [gone_txt, empty_file]) = 2" by simp
  finally have p2: "createAndDownloadZip env0 tok0 (map descriptor_of [gone_txt, empty_file])
       (js ''widgets-utils'') (js ''acme'') (js ''widgets'') [] =
     (Inl NoFilesDownloaded,
         events (zipLoop env0 tok0 (js ''acme'') (js ''widgets'') 2
                   (map descriptor_of [gone_txt, empty_file])
                   \<lparr>zip = [], downloadedCount = 0, successfulDownloads = 0,
                      events = [LoadScript]\<rparr>))"
    unfolding d if_False append_Nil .
  show ?thesis
    by (rule conjI [OF h1 conjI [OF e1 p2 [unfolded e2]]])
qed


section \<open>The download operation: the claims\<close>

text \<open>
  C6: an input that, trimmed and with one trailing slash stripped, matches neither
  pattern is rejected by the parser with \<open>InvalidUrl\<close>, and the operation ends without
  a request to the network.
\<close>

theorem invalid_url_rejected:
  assumes "match (replace_empty (trim input) trailingSlash) repoRegex = None"
    and "match (replace_empty (trim input) trailingSlash) dirRegex = None"
  shows "parseGitHubUrl (trim input) = Inl InvalidUrl \<and>
         downloadContent fuel E tok input =
           Some (if trim input = [] then [Log PleaseEnterUrl Err]
                 else [Log ParsingUrl Info, ConsoleError InvalidUrl,
                       Log (DownloadFailed InvalidUrl) Err, Disabled False]) \<and>
         requests_of (the (downloadContent fuel E tok input)) = []"
proof -
  have p: "parseGitHubUrl (trim input) = Inl InvalidUrl"
    using assms by (simp add: parseGitHubUrl_def)
  then have d: "downloadContent fuel E tok input =
           Some (if trim input = [] then [Log PleaseEnterUrl Err]
                 else [Log ParsingUrl Info, ConsoleError InvalidUrl,
                       Log (DownloadFailed InvalidUrl) Err, Disabled False])"
    by (simp add: downloadContent_def failed_def)
  from p d show ?thesis by simp
qed

theorem invalid_url_rejected_witness:
  "parseGitHubUrl (trim (js ''  https://gitlab.com/acme/widgets/ '')) = Inl InvalidUrl \<and>
   downloadContent 0 env0 tok0 (js ''  https://gitlab.com/acme/widgets/ '') =
     Some [Log ParsingUrl Info, ConsoleError InvalidUrl,
           Log (DownloadFailed InvalidUrl) Err, Disabled False]"
proof -
  let ?i = "js ''  https://gitlab.com/acme/widgets/ ''"
  have t: "trim ?i = js ''https://gitlab.com/acme/widgets/''"
    by (simp add: trim_def is_js_space_def js_def)
  have s: "replace_empty (js ''https://gitlab.com/acme/widgets/'') trailingSlash =
           js ''https://gitlab.com/acme/widgets''"
    by (simp add: strip_trailing_slash js_def slash_def)
  have h1: "match (replace_empty (trim ?i) trailingSlash) repoRegex = None"
    unfolding t s by (simp add: parse_eval)
  have h2: "match (replace_empty (trim ?i) trailingSlash) dirRegex = None"
    unfolding t s by (simp add: parse_eval)
  have n: "trim ?i \<noteq> []" unfolding t by (simp add: js_def)
  show ?thesis
    using invalid_url_rejected [OF h1 h2, of 0 env0 tok0] n by simp
qed

lemma lister_saves:
  assumes "fetchDirectoryContents fuel E tok ow rp p (acc, ev) = Some (res, ev')"
  shows "saves_of ev' = saves_of ev"
proof -
  from lister_trace(1) [OF assms] obtain rs q where "ev' = ev @ map Request (rs @ [q])"
    by auto
  then show ?thesis by (simp only: saves_of_append saves_of_requests append_Nil2)
qed

lemma split_on_nonempty: "split_on c s \<noteq> []"
  by (induction s) (auto split: list.splits)

lemma folderName_of_eq:
  "folderName_of t =
     (if isRepo t then repo t
      else repo t @ js ''-'' @
           (if last (split_on slash (path t)) = [] then js ''root''
            else last (split_on slash (path t))))"
  by (simp add: folderName_of_def pop_def split_on_nonempty)

text \<open>
  C7: whenever the operation saves an archive, the file name is the repository name
  for a whole-repository URL, and otherwise the repository name, a hyphen and the last
  segment of the path, or \<open>root\<close> when that segment is empty, as it is for the empty
  path; \<open>.zip\<close> is appended. The URL \<open>https://github.com/acme/widgets/tree/main/src/utils\<close>
  gives \<open>widgets-utils.zip\<close>.
\<close>

theorem archive_file_name:
  assumes "downloadContent fuel E tok input = Some ev" and "(nm, a) \<in> set (saves_of ev)"
  shows "\<exists>t. parseGitHubUrl (trim input) = Inr t \<and>
             nm = (if isRepo t then repo t
                   else repo t @ js ''-'' @
                        (if last (split_on slash (path t)) = [] then js ''root''
                         else last (split_on slash (path t)))) @ js ''.zip'' \<and>
             (\<not> isRepo t \<and> path t = [] \<longrightarrow> nm = repo t @ js ''-root.zip'') \<and>
             (trim input = js ''https://github.com/acme/widgets/tree/main/src/utils'' \<longrightarrow>
              nm = js ''widgets-utils.zip'')"
proof -
  let ?init = "[Log ParsingUrl Info, Log FetchingContents Info, Disabled True]"
  from assms have ne: "trim input \<noteq> []"
    by (auto simp: downloadContent_def Let_def)
  from assms ne obtain t where t: "parseGitHubUrl (trim input) = Inr t"
    by (cases "parseGitHubUrl (trim input)") (auto simp: downloadContent_def Let_def failed_def)
  from assms(1) ne t obtain res ev1 where
    l: "fetchDirectoryContents fuel E tok (owner t) (repo t) (path t) ([], ?init) = Some (res, ev1)"
    by (auto simp: downloadContent_def Let_def split: option.splits)
  have s1: "saves_of ev1 = []" using lister_saves [OF l] by simp
  from assms ne t l s1 obtain files where res: "res = Inr files"
    by (cases res) (auto simp: downloadContent_def Let_def failed_def saves_of_append)
  from assms ne t l s1 res have fs: "files \<noteq> []"
    by (auto simp: downloadContent_def Let_def saves_of_append)
  let ?c = "createAndDownloadZip E tok files (folderName_of t) (owner t) (repo t)
              (ev1 @ [Log (FoundFiles (length files)) Info])"
  have "saves_of ev = saves_of (snd ?c)"
    using assms(1) ne t l res fs
    by (cases ?c; cases "fst ?c")
       (auto simp: downloadContent_def Let_def failed_def saves_of_append)
  with assms(2) have nm: "nm = folderName_of t @ js ''.zip''"
    unfolding create_saves by (auto simp: saves_of_append s1 split: sum.splits)
  have ex: "nm = js ''widgets-utils.zip''"
    if "trim input = js ''https://github.com/acme/widgets/tree/main/src/utils''"
  proof -
    have "parseGitHubUrl (js ''https://github.com/acme/widgets/tree/main/src/utils'') =
      Inr \<lparr>owner = js ''acme'', repo = js ''widgets'', path = js ''src/utils'', isRepo = False\<rparr>"
      by (simp add: parse_eval)
    with that t have "t = \<lparr>owner = js ''acme'', repo = js ''widgets'', path = js ''src/utils'',
        isRepo = False\<rparr>" by simp
    then show ?thesis unfolding nm by (simp add: folderName_of_def pop_def js_def slash_def)
  qed
  from t nm ex show ?thesis
    unfolding folderName_of_eq by (auto simp: js_def)
qed

theorem archive_file_name_witness:
  "downloadContent (Suc (Suc 0)) env0 tok0 (js ''https://github.com/acme/widgets/tree/main/src/utils'') =
     Some [Log ParsingUrl Info, Log FetchingContents Info, Disabled True,
           Request (api_request tok0 (js ''acme'') (js ''widgets'') (js ''src/utils'')),
           Request (api_request tok0 (js ''acme'') (js ''widgets'') (js ''src/utils/sub'')),
           Log (FoundFiles 4) Info,
           LoadScript,
           Log (Downloading (js ''a.txt'') 1 4) Info,
           Request (api_request tok0 (js ''acme'') (js ''widgets'') (js ''src/utils/a.txt'')),
           Log (Downloading (js ''b.txt'') 2 4) Info,
           Request (api_request tok0 (js ''acme'') (js ''widgets'') (js ''src/utils/sub/b.txt'')),
           Log (Downloading (js ''empty'') 3 4) Info,
           Request (api_request tok0 (js ''acme'') (js ''widgets'') (js ''src/utils/empty'')),
           WarnNoContent (js ''empty''),
           Log (Downloading (js ''gone.txt'') 4 4) Info,
           Request (api_request tok0 (js ''acme'') (js ''widgets'') (js ''src/utils/gone.txt'')),
           WarnFailed (js ''gone.txt'') (FetchFileFailed (js ''gone.txt'') 404),
           Log (GeneratingZip 2) Info,
           Save (js ''widgets-utils.zip'')
             [(js ''src/utils/a.txt'', [0x68, 0x69]),
              (js ''src/utils/sub/b.txt'', [0x68, 0x65, 0x6C, 0x6C, 0x6F])],
           Log (ZipCreated 222) Success,
           Log DownloadCompleted Success,
           Disabled False] \<and>
   (\<exists>t. parseGitHubUrl (trim (js ''https://github.com/acme/widgets/tree/main/src/utils'')) = Inr t \<and>
        js ''widgets-utils.zip'' = repo t @ js ''-'' @ last (split_on slash (path t)) @ js ''.zip'')"
proof -
  let ?i = "js ''https://github.com/acme/widgets/tree/main/src/utils''"
  let ?a = "[(js ''src/utils/a.txt'', [0x68, 0x69]),
              (js ''src/utils/sub/b.txt'', [0x68, 0x65, 0x6C, 0x6C, 0x6F :: byte])]"
  let ?ev = "[Log ParsingUrl Info, Log FetchingContents Info, Disabled True,
           Request (api_request tok0 (js ''acme'') (js ''widgets'') (js ''src/utils'')),
           Request (api_request tok0 (js ''acme'') (js ''widgets'') (js ''src/utils/sub'')),
           Log (FoundFiles 4) Info,
           LoadScript,
           Log (Downloading (js ''a.txt'') 1 4) Info,
           Request (api_request tok0 (js ''acme'') (js ''widgets'') (js ''src/utils/a.txt'')),
           Log (Downloading (js ''b.txt'') 2 4) Info,
           Request (api_request tok0 (js ''acme'') (js ''widgets'') (js ''src/utils/sub/b.txt'')),
           Log (Downloading (js ''empty'') 3 4) Info,
           Request (api_request tok0 (js ''acme'') (js ''widgets'') (js ''src/utils/empty'')),
           WarnNoContent (js ''empty''),
           Log (Downloading (js ''gone.txt'') 4 4) Info,
           Request (api_request tok0 (js ''acme'') (js ''widgets'') (js ''src/utils/gone.txt'')),
           WarnFailed (js ''gone.txt'') (FetchFileFailed (js ''gone.txt'') 404),
           Log (GeneratingZip 2) Info,
           Save (js ''widgets-utils.zip'') ?a,
           Log (ZipCreated 222) Success,
           Log DownloadCompleted Success,
           Disabled False]"
  have h1: "downloadContent (Suc (Suc 0)) env0 tok0 ?i = Some ?ev"
    by (simp add: downloadContent_def folderName_of_def pop_def failed_def parse_eval sample_eval)
  have h2: "(js ''widgets-utils.zip'', ?a) \<in> set (saves_of ?ev)"
    by simp
  have p: "parseGitHubUrl (trim ?i) =
      Inr \<lparr>owner = js ''acme'', repo = js ''widgets'', path = js ''src/utils'', isRepo = False\<rparr>"
    by (simp add: parse_eval)
  have l: "last (split_on slash (js ''src/utils'')) = js ''utils''"
    by (simp add: js_def slash_def)
  from archive_file_name [OF h1 h2] p l have
    "\<exists>t. parseGitHubUrl (trim ?i) = Inr t \<and>
        js ''widgets-utils.zip'' = repo t @ js ''-'' @ last (split_on slash (path t)) @ js ''.zip''"
    by (auto simp: js_def)
  with h1 show ?thesis by blast
qed

end
